theory Spec2Isabelle
  imports Main "HOL-Library.Word" "HOL-Library.Sublist"
begin

section \<open>The type float64\<close>

text \<open>
  The arithmetic handlers compute with Go's \<^verbatim>\<open>float64\<close>, the binary64 format of
  IEEE 754. A value is its 64 bits (sign, 11 bits of exponent, 52 bits of fraction), as
  \<^verbatim>\<open>math.Float64frombits\<close> reads them; the result of an operation that is not a
  number is \<open>NaN\<close>, whose sign and payload are left open. \<open>unpack\<close> reads the
  bits: a finite value \<open>IsFinite s m e\<close> denotes \<open>m * 2 ^ e\<close>, negated when \<open>s\<close>
  holds (\<open>e = - 1074\<close> for zeros and subnormal numbers).

  \<open>round_float64 s p q e\<close> is the float64 nearest to the exact number
  \<open>p / q * 2 ^ e\<close> (\<open>q\<close> positive) with sign \<open>s\<close>, ties going to the even
  significand: the quotient is scaled so that its integer part has 53 bits (fewer in the
  subnormal range), rounded to an integer, and packed; a significand that rounds up to
  \<open>2 ^ 53\<close> carries into the exponent field by the layout of the bits, and a result
  beyond the largest finite number becomes an infinity. The four operations compute the
  exact result of finite operands and round it once.
\<close>

datatype float64 = NaN | Float64frombits "64 word"

datatype unpacked = IsNaN | IsInf bool | IsFinite bool nat int

definition float64_fields :: "bool \<Rightarrow> nat \<Rightarrow> nat \<Rightarrow> unpacked" where
  "float64_fields s E F =
    (if E = 2047 then (if F = 0 then IsInf s else IsNaN)
     else if E = 0 then IsFinite s F (- 1074)
     else IsFinite s (2 ^ 52 + F) (int E - 1075))"

definition unpack :: "float64 \<Rightarrow> unpacked" where
  "unpack x =
    (case x of
       NaN \<Rightarrow> IsNaN
     | Float64frombits w \<Rightarrow>
         float64_fields (2 ^ 63 \<le> unat w) (unat w div 2 ^ 52 mod 2048) (unat w mod 2 ^ 52))"

definition pack :: "bool \<Rightarrow> nat \<Rightarrow> float64" where
  "pack s n = Float64frombits (of_nat (if s then 2 ^ 63 + n else n))"

definition infinity :: "bool \<Rightarrow> float64" where
  "infinity s = pack s 0x7FF0000000000000"

fun bitlen :: "nat \<Rightarrow> nat" where
  "bitlen n = (if n = 0 then 0 else Suc (bitlen (n div 2)))"

declare bitlen.simps [simp del]

definition log2_between :: "nat \<Rightarrow> nat \<Rightarrow> int \<Rightarrow> int" where
  "log2_between p q l =
    (if (if 0 \<le> l then q * 2 ^ nat l \<le> p else q \<le> p * 2 ^ nat (- l)) then l else l - 1)"

definition floor_log2 :: "nat \<Rightarrow> nat \<Rightarrow> int" where
  "floor_log2 p q = log2_between p q (int (bitlen p) - int (bitlen q))"

definition nearest_even :: "nat \<Rightarrow> nat \<Rightarrow> nat \<Rightarrow> nat" where
  "nearest_even f r q =
    (if 2 * r < q then f
     else if q < 2 * r then f + 1
     else if even f then f else f + 1)"

definition round_half_even :: "nat \<Rightarrow> nat \<Rightarrow> nat" where
  "round_half_even p q = nearest_even (p div q) (p mod q) q"

definition scale_round :: "nat \<Rightarrow> nat \<Rightarrow> int \<Rightarrow> nat" where
  "scale_round p q d =
    (if 0 \<le> d then round_half_even (p * 2 ^ nat d) q
     else round_half_even p (q * 2 ^ nat (- d)))"

definition round_at :: "bool \<Rightarrow> nat \<Rightarrow> nat \<Rightarrow> int \<Rightarrow> int \<Rightarrow> float64" where
  "round_at s p q e k =
     pack s (min (nat (k + 1074) * 2 ^ 52 + scale_round p q (e - k)) 0x7FF0000000000000)"

definition round_float64 :: "bool \<Rightarrow> nat \<Rightarrow> nat \<Rightarrow> int \<Rightarrow> float64" where
  "round_float64 s p q e =
    (if p = 0 then pack s 0
     else round_at s p q e (max (floor_log2 p q + e - 52) (- 1074)))"

definition with_sign :: "bool \<Rightarrow> nat \<Rightarrow> int" where
  "with_sign s m = (if s then - int m else int m)"

definition round_sum :: "bool \<Rightarrow> bool \<Rightarrow> int \<Rightarrow> int \<Rightarrow> float64" where
  "round_sum s t x k =
    (if x = 0 then pack (s \<and> t) 0 else round_float64 (x < 0) (nat \<bar>x\<bar>) 1 k)"

definition add_aligned ::
  "bool \<Rightarrow> nat \<Rightarrow> int \<Rightarrow> bool \<Rightarrow> nat \<Rightarrow> int \<Rightarrow> int \<Rightarrow> float64" where
  "add_aligned s m e t n f k =
     round_sum s t (with_sign s m * 2 ^ nat (e - k) + with_sign t n * 2 ^ nat (f - k)) k"

definition float64_add :: "float64 \<Rightarrow> float64 \<Rightarrow> float64" where
  "float64_add a b =
    (case (unpack a, unpack b) of
       (IsNaN, _) \<Rightarrow> NaN
     | (_, IsNaN) \<Rightarrow> NaN
     | (IsInf s, IsInf t) \<Rightarrow> if s = t then infinity s else NaN
     | (IsInf s, IsFinite t n f) \<Rightarrow> infinity s
     | (IsFinite s m e, IsInf t) \<Rightarrow> infinity t
     | (IsFinite s m e, IsFinite t n f) \<Rightarrow> add_aligned s m e t n f (min e f))"

definition float64_neg :: "float64 \<Rightarrow> float64" where
  "float64_neg x =
    (case x of NaN \<Rightarrow> NaN | Float64frombits w \<Rightarrow> Float64frombits (w + 0x8000000000000000))"

definition float64_sub :: "float64 \<Rightarrow> float64 \<Rightarrow> float64" where
  "float64_sub a b = float64_add a (float64_neg b)"

definition float64_mul :: "float64 \<Rightarrow> float64 \<Rightarrow> float64" where
  "float64_mul a b =
    (case (unpack a, unpack b) of
       (IsNaN, _) \<Rightarrow> NaN
     | (_, IsNaN) \<Rightarrow> NaN
     | (IsInf s, IsInf t) \<Rightarrow> infinity (s \<noteq> t)
     | (IsInf s, IsFinite t n f) \<Rightarrow> if n = 0 then NaN else infinity (s \<noteq> t)
     | (IsFinite s m e, IsInf t) \<Rightarrow> if m = 0 then NaN else infinity (s \<noteq> t)
     | (IsFinite s m e, IsFinite t n f) \<Rightarrow> round_float64 (s \<noteq> t) (m * n) 1 (e + f))"

definition float64_div :: "float64 \<Rightarrow> float64 \<Rightarrow> float64" where
  "float64_div a b =
    (case (unpack a, unpack b) of
       (IsNaN, _) \<Rightarrow> NaN
     | (_, IsNaN) \<Rightarrow> NaN
     | (IsInf s, IsInf t) \<Rightarrow> NaN
     | (IsInf s, IsFinite t n f) \<Rightarrow> infinity (s \<noteq> t)
     | (IsFinite s m e, IsInf t) \<Rightarrow> pack (s \<noteq> t) 0
     | (IsFinite s m e, IsFinite t n f) \<Rightarrow>
         if n = 0 then (if m = 0 then NaN else infinity (s \<noteq> t))
         else round_float64 (s \<noteq> t) m n (e - f))"

definition float64_is_zero :: "float64 \<Rightarrow> bool" where
  "float64_is_zero b = (case unpack b of IsFinite s m e \<Rightarrow> m = 0 | _ \<Rightarrow> False)"

definition float64_of_int :: "int \<Rightarrow> float64" where
  "float64_of_int i = round_float64 (i < 0) (nat \<bar>i\<bar>) 1 0"

section \<open>Data model\<close>

text \<open>
  The server and the client of \<^verbatim>\<open>lab1/server/internal/app/run.go\<close> exchange two
  envelopes. Parameters and results are Go values of type \<^verbatim>\<open>interface{}\<close>; the
  dynamic types that occur are the ones \<^verbatim>\<open>json.Unmarshal\<close> stores (nil, bool,
  float64, string, slice, map) and \<^verbatim>\<open>int64\<close>, which \<^verbatim>\<open>getTime\<close> returns.
  A Go string is its sequence of bytes (\<^typ>\<open>string\<close>); Go errors are modelled by
  their messages. A map is a partial function; a nil map and an empty map, which no
  handler tells apart, are both the empty one.
\<close>

datatype any =
    VNil
  | VBool bool
  | VFloat64 float64
  | VInt64 int
  | VString string
  | VSlice "any list"
  | VMap "string \<Rightarrow> any option"

record RPCRequest =
  RequestID :: string
  Method :: string
  Params :: "string \<rightharpoonup> any"
  Timestamp :: int

record RPCResponse =
  RespRequestID :: string
  Result :: any
  Error :: string
  Status :: string

text \<open>The request log is a \<^verbatim>\<open>sync.Map\<close> from request identifiers to \<^verbatim>\<open>true\<close>.\<close>

record Service =
  requestLog :: "string \<rightharpoonup> bool"

section \<open>Conversions between strings and rune slices\<close>

text \<open>
  \<^verbatim>\<open>reverseString\<close> converts its argument with \<^verbatim>\<open>[]rune(str)\<close> and back with
  \<^verbatim>\<open>string(runes)\<close>. Both are conversions of the Go language, which reads and
  writes UTF-8: a byte sequence that is no valid encoding decodes to the rune U+FFFD,
  one byte at a time, and a rune that is no Unicode scalar value is written as U+FFFD.
  Bytes and runes are natural numbers here (a rune produced by the decoder is never
  negative); masks and shifts are written as \<open>mod\<close>, \<open>div\<close> and multiplication.
\<close>

definition contb :: "nat \<Rightarrow> bool" where
  "contb b = (0x80 \<le> b \<and> b \<le> 0xBF)"

definition rune2 :: "nat \<Rightarrow> nat \<Rightarrow> nat" where
  "rune2 b0 b1 = (b0 mod 32) * 64 + b1 mod 64"

definition rune3 :: "nat \<Rightarrow> nat \<Rightarrow> nat \<Rightarrow> nat" where
  "rune3 b0 b1 b2 = (b0 mod 16) * 4096 + (b1 mod 64) * 64 + b2 mod 64"

definition rune4 :: "nat \<Rightarrow> nat \<Rightarrow> nat \<Rightarrow> nat \<Rightarrow> nat" where
  "rune4 b0 b1 b2 b3 =
     (b0 mod 8) * 262144 + (b1 mod 64) * 4096 + (b2 mod 64) * 64 + b3 mod 64"

text \<open>
  The decoder of one multi-byte sequence at the head of a non-empty byte list whose
  first byte is not ASCII: the rune and the number of bytes it takes.
\<close>

definition decoderune :: "nat list \<Rightarrow> nat \<times> nat" where
  "decoderune s =
    (if 0xC0 \<le> s ! 0 \<and> s ! 0 < 0xE0 \<and> 1 < length s \<and> contb (s ! 1) \<and>
        0x7F < rune2 (s ! 0) (s ! 1)
     then (rune2 (s ! 0) (s ! 1), 2)
     else if 0xE0 \<le> s ! 0 \<and> s ! 0 < 0xF0 \<and> 2 < length s \<and>
        contb (s ! 1) \<and> contb (s ! 2) \<and>
        0x7FF < rune3 (s ! 0) (s ! 1) (s ! 2) \<and>
        \<not> (0xD800 \<le> rune3 (s ! 0) (s ! 1) (s ! 2) \<and> rune3 (s ! 0) (s ! 1) (s ! 2) \<le> 0xDFFF)
     then (rune3 (s ! 0) (s ! 1) (s ! 2), 3)
     else if 0xF0 \<le> s ! 0 \<and> s ! 0 < 0xF8 \<and> 3 < length s \<and>
        contb (s ! 1) \<and> contb (s ! 2) \<and> contb (s ! 3) \<and>
        0xFFFF < rune4 (s ! 0) (s ! 1) (s ! 2) (s ! 3) \<and>
        rune4 (s ! 0) (s ! 1) (s ! 2) (s ! 3) \<le> 0x10FFFF
     then (rune4 (s ! 0) (s ! 1) (s ! 2) (s ! 3), 4)
     else (0xFFFD, 1))"

lemma decoderune_width: "0 < snd (decoderune s)"
  unfolding decoderune_def by (simp only: split: if_split) simp

function decoderunes :: "nat list \<Rightarrow> nat list" where
  "decoderunes s =
     (if s = [] then []
      else if s ! 0 < 0x80 then s ! 0 # decoderunes (drop 1 s)
      else fst (decoderune s) # decoderunes (drop (snd (decoderune s)) s))"
  by pat_completeness auto
termination
proof (relation "measure length")
  show "wf (measure length)" by simp
next
  fix s :: "nat list"
  assume "s \<noteq> []"
  then show "(drop 1 s, s) \<in> measure length" by (cases s) simp_all
next
  fix s :: "nat list"
  assume "s \<noteq> []"
  moreover have "0 < snd (decoderune s)" by (rule decoderune_width)
  ultimately show "(drop (snd (decoderune s)) s, s) \<in> measure length"
    by (cases s) simp_all
qed

declare decoderunes.simps [simp del]

definition encoderune :: "nat \<Rightarrow> nat list" where
  "encoderune r =
    (if r \<le> 0x7F then [r]
     else if r \<le> 0x7FF then [0xC0 + r div 64, 0x80 + r mod 64]
     else if 0x10FFFF < r \<or> (0xD800 \<le> r \<and> r \<le> 0xDFFF) then [0xEF, 0xBF, 0xBD]
     else if r \<le> 0xFFFF then
       [0xE0 + r div 4096, 0x80 + (r div 64) mod 64, 0x80 + r mod 64]
     else
       [0xF0 + r div 262144, 0x80 + (r div 4096) mod 64, 0x80 + (r div 64) mod 64,
        0x80 + r mod 64])"

definition stringtoslicerune :: "string \<Rightarrow> nat list" where
  "stringtoslicerune str = decoderunes (map of_char str)"

definition slicerunetostring :: "nat list \<Rightarrow> string" where
  "slicerunetostring runes = map char_of (concat (map encoderune runes))"

section \<open>The remote procedures\<close>

text \<open>
  A handler returns \<^verbatim>\<open>(result, nil)\<close> or \<^verbatim>\<open>(nil, err)\<close>: \<open>Inr result\<close> or
  \<open>Inl message\<close>. The comma-ok type assertions on a looked-up parameter (a missing key
  yields the nil interface) are \<open>float64_of\<close> and \<open>string_of\<close>. The comparison
  \<^verbatim>\<open>b == 0\<close> of \<^verbatim>\<open>divide\<close> holds of both zeros, \<open>+0\<close> and \<open>-0\<close>, and of
  nothing else (\<open>float64_is_zero\<close>).
\<close>

definition float64_of :: "any option \<Rightarrow> float64 option" where
  "float64_of v = (case v of Some (VFloat64 x) \<Rightarrow> Some x | _ \<Rightarrow> None)"

definition string_of :: "any option \<Rightarrow> string option" where
  "string_of v = (case v of Some (VString x) \<Rightarrow> Some x | _ \<Rightarrow> None)"

definition add :: "(string \<rightharpoonup> any) \<Rightarrow> string + any" where
  "add params =
    (case (float64_of (params ''a''), float64_of (params ''b'')) of
       (Some a, Some b) \<Rightarrow> Inr (VFloat64 (float64_add a b))
     | _ \<Rightarrow> Inl ''parameters 'a' and 'b' must be numbers'')"

definition subtract :: "(string \<rightharpoonup> any) \<Rightarrow> string + any" where
  "subtract params =
    (case (float64_of (params ''a''), float64_of (params ''b'')) of
       (Some a, Some b) \<Rightarrow> Inr (VFloat64 (float64_sub a b))
     | _ \<Rightarrow> Inl ''parameters 'a' and 'b' must be numbers'')"

definition multiply :: "(string \<rightharpoonup> any) \<Rightarrow> string + any" where
  "multiply params =
    (case (float64_of (params ''a''), float64_of (params ''b'')) of
       (Some a, Some b) \<Rightarrow> Inr (VFloat64 (float64_mul a b))
     | _ \<Rightarrow> Inl ''parameters 'a' and 'b' must be numbers'')"

definition divide_handler :: "(string \<rightharpoonup> any) \<Rightarrow> string + any" where
  "divide_handler params =
    (case (float64_of (params ''a''), float64_of (params ''b'')) of
       (Some a, Some b) \<Rightarrow>
         if float64_is_zero b then Inl ''division by zero''
         else Inr (VFloat64 (float64_div a b))
     | _ \<Rightarrow> Inl ''parameters 'a' and 'b' must be numbers'')"

text \<open>\<^verbatim>\<open>getTime\<close> reads the clock; the reading (Unix seconds) is an argument.\<close>

definition getTime :: "int \<Rightarrow> (string \<rightharpoonup> any) \<Rightarrow> string + any" where
  "getTime now params = Inr (VInt64 now)"

text \<open>
  The loop of \<^verbatim>\<open>reverseString\<close> swaps \<^verbatim>\<open>runes[i]\<close> and \<^verbatim>\<open>runes[j]\<close> while
  \<^verbatim>\<open>i < j\<close>. An index out of range panics in Go: the result is \<open>None\<close> then.
\<close>

function reverse_loop :: "int \<Rightarrow> int \<Rightarrow> nat list \<Rightarrow> nat list option" where
  "reverse_loop i j runes =
     (if i < j then
        (if 0 \<le> i \<and> j < int (length runes) then
           reverse_loop (i + 1) (j - 1)
             (runes[nat i := runes ! nat j, nat j := runes ! nat i])
         else None)
      else Some runes)"
  by pat_completeness auto
termination
  by (relation "measure (\<lambda>(i, j, runes). nat (j - i))") auto

declare reverse_loop.simps [simp del]

definition reverseString :: "(string \<rightharpoonup> any) \<Rightarrow> string + any" where
  "reverseString params =
    (case string_of (params ''s'') of
       None \<Rightarrow> Inl ''parameter 's' must be a string''
     | Some str \<Rightarrow>
         (let runes = stringtoslicerune str in
          case reverse_loop 0 (int (length runes) - 1) runes of
            Some runes' \<Rightarrow> Inr (VString (slicerunetostring runes'))
          | None \<Rightarrow> Inl ''panic: runtime error: index out of range''))"

definition echo :: "(string \<rightharpoonup> any) \<Rightarrow> string + any" where
  "echo params = Inr (VMap params)"

section \<open>The request dispatcher\<close>

text \<open>
  \<^verbatim>\<open>ExecuteMethod\<close> first does \<^verbatim>\<open>LoadOrStore\<close> on the request log of its service,
  then runs the \<^verbatim>\<open>switch\<close> on the method name. It returns the response, the service
  with its updated log, and the names of the handlers it called (none for a duplicate
  or an unknown method). The simulated delay and the goroutine that deletes the log
  entry five minutes later only concern time and are left out: the model describes
  the retention window.
\<close>

definition invoke :: "int \<Rightarrow> RPCRequest \<Rightarrow> string list \<times> (string + any)" where
  "invoke now req =
    (if Method req = ''add'' then ([''add''], add (Params req))
     else if Method req = ''subtract'' then ([''subtract''], subtract (Params req))
     else if Method req = ''multiply'' then ([''multiply''], multiply (Params req))
     else if Method req = ''divide'' then ([''divide''], divide_handler (Params req))
     else if Method req = ''get_time'' then ([''get_time''], getTime now (Params req))
     else if Method req = ''reverse_string'' then
       ([''reverse_string''], reverseString (Params req))
     else if Method req = ''echo'' then ([''echo''], echo (Params req))
     else ([], Inl (''unknown method: '' @ Method req)))"

definition ExecuteMethod ::
  "Service \<Rightarrow> int \<Rightarrow> RPCRequest \<Rightarrow> RPCResponse \<times> Service \<times> string list" where
  "ExecuteMethod s now req =
    (if requestLog s (RequestID req) \<noteq> None then
       (\<lparr>RespRequestID = RequestID req, Result = VNil,
         Error = ''Request already processed'', Status = ''DUPLICATE''\<rparr>, s, [])
     else
       (let s' = s\<lparr>requestLog := (requestLog s)(RequestID req \<mapsto> True)\<rparr> in
        case invoke now req of
          (called, Inl err) \<Rightarrow>
            (\<lparr>RespRequestID = RequestID req, Result = VNil, Error = err,
              Status = ''ERROR''\<rparr>, s', called)
        | (called, Inr result) \<Rightarrow>
            (\<lparr>RespRequestID = RequestID req, Result = result, Error = [],
              Status = ''OK''\<rparr>, s', called)))"

section \<open>Handling one datagram\<close>

text \<open>
  \<^verbatim>\<open>json.Unmarshal\<close> and \<^verbatim>\<open>json.Marshal\<close> belong to the Go library; the
  functions below take them as arguments (\<open>Inl\<close> is the error they return).
  \<^verbatim>\<open>HandleErr\<close> builds the error response, encodes it (ignoring an encoding
  error, as the source does) and writes it to the sender: it returns the response and
  the bytes written.
\<close>

definition ParseInput ::
  "(string \<Rightarrow> string + RPCRequest) \<Rightarrow> string \<Rightarrow> string + RPCRequest" where
  "ParseInput json_Unmarshal buffer =
    (case json_Unmarshal buffer of
       Inl err \<Rightarrow> Inl (''failed to parse JSON: '' @ err)
     | Inr req \<Rightarrow>
         if RequestID req = [] then Inl ''request_id is required''
         else if Method req = [] then Inl ''method is required''
         else Inr req)"

definition HandleErr ::
  "(RPCResponse \<Rightarrow> string + string) \<Rightarrow> string \<Rightarrow> string \<Rightarrow> RPCResponse \<times> string" where
  "HandleErr json_Marshal message err =
    (let resp = \<lparr>RespRequestID = [], Result = VNil,
                  Error = message @ '': '' @ err, Status = ''ERROR''\<rparr>
     in (resp, case json_Marshal resp of Inr respData \<Rightarrow> respData | Inl _ \<Rightarrow> []))"

text \<open>
  What \<^verbatim>\<open>handleMessage\<close> does for one datagram: the response it encodes, the bytes
  it writes to the sender, and the handlers it called. It starts from
  \<^verbatim>\<open>service := &Service{}\<close>, a service with an empty request log; a failed
  \<^verbatim>\<open>WriteToUDP\<close> is only logged.
\<close>

record Handled =
  response :: RPCResponse
  datagram :: string
  handler_calls :: "string list"

definition handleMessage ::
  "(string \<Rightarrow> string + RPCRequest) \<Rightarrow> (RPCResponse \<Rightarrow> string + string) \<Rightarrow> int \<Rightarrow> string
     \<Rightarrow> Handled" where
  "handleMessage json_Unmarshal json_Marshal now buffer =
    (let service = \<lparr>requestLog = Map.empty\<rparr> in
     case ParseInput json_Unmarshal buffer of
       Inl err \<Rightarrow>
         (case HandleErr json_Marshal ''error parsing inputs'' err of
            (resp, respData) \<Rightarrow> \<lparr>response = resp, datagram = respData, handler_calls = []\<rparr>)
     | Inr msg \<Rightarrow>
         (case ExecuteMethod service now msg of
            (resp, service', calls) \<Rightarrow>
              (case json_Marshal resp of
                 Inl err \<Rightarrow>
                   (case HandleErr json_Marshal ''error marshaling response'' err of
                      (resp', respData) \<Rightarrow>
                        \<lparr>response = resp', datagram = respData, handler_calls = calls\<rparr>)
               | Inr respData \<Rightarrow>
                   \<lparr>response = resp, datagram = respData, handler_calls = calls\<rparr>)))"

text \<open>
  \<^verbatim>\<open>Run\<close> reads datagrams for ever and starts \<^verbatim>\<open>handleMessage\<close> on each one in
  a goroutine of its own; nothing is handed from one datagram to the next. On a finite
  sequence of datagrams, each with the clock reading of its handling, the server does:
\<close>

definition Run ::
  "(string \<Rightarrow> string + RPCRequest) \<Rightarrow> (RPCResponse \<Rightarrow> string + string)
     \<Rightarrow> (int \<times> string) list \<Rightarrow> Handled list" where
  "Run json_Unmarshal json_Marshal datagrams =
     map (\<lambda>(now, buffer). handleMessage json_Unmarshal json_Marshal now buffer) datagrams"

section \<open>The client\<close>

text \<open>
  \<^verbatim>\<open>generateRequestID\<close> formats the clock reading in nanoseconds and the number
  drawn by \<^verbatim>\<open>rand.Intn(1000)\<close> with \<^verbatim>\<open>"%d-%d"\<close>; both are arguments here.
  \<open>format_d\<close> is the decimal notation that \<^verbatim>\<open>%d\<close> prints.
\<close>

definition digit :: "nat \<Rightarrow> char" where
  "digit d = ''0123456789'' ! d"

fun format_nat :: "nat \<Rightarrow> string" where
  "format_nat n =
     (if n < 10 then [digit n]
      else format_nat (n div 10) @ [digit (n mod 10)])"

declare format_nat.simps [simp del]

definition format_d :: "int \<Rightarrow> string" where
  "format_d i = (if i < 0 then CHR ''-'' # format_nat (nat (- i)) else format_nat (nat i))"

definition generateRequestID :: "int \<Rightarrow> int \<Rightarrow> string" where
  "generateRequestID now rnd = format_d now @ ''-'' @ format_d rnd"

text \<open>
  The client keeps the server address, the socket, the timeout of one attempt (a
  duration in nanoseconds) and the number of retries; the address and the socket are
  part of the environment below.

  One attempt of \<^verbatim>\<open>Call\<close> writes the request, starts a goroutine that reads one
  datagram from the socket, and waits in a \<^verbatim>\<open>select\<close> for the first of: a response
  decoded by that goroutine, an error of that goroutine (a failed read or a datagram that
  does not decode), or the expiry of the timeout. When the timeout comes first, nothing
  stops the goroutine: it stays blocked in \<^verbatim>\<open>ReadFromUDP\<close>. The readers of one
  socket are served in the order in which they began to read, so this reader takes the
  next datagram or read error that reaches the socket; it then blocks for ever sending
  on a channel that nobody receives from, and what it read is lost. Readers left behind
  by earlier calls on the same client do the same.

  The environment holds the clock readings, the random number and the library functions
  that \<^verbatim>\<open>Call\<close> uses; for each attempt and the bytes written, the error of
  \<^verbatim>\<open>WriteToUDP\<close> if it fails; the number of readers that earlier calls left blocked
  on the socket; and the events at the socket as the call meets them, in order: a
  datagram arrives (or is already there), a read fails, or the timeout of the attempt
  that is waiting expires. After the last event nothing arrives any more, so the attempt
  that is waiting then times out.
\<close>

record RPCClient =
  Timeout :: int
  MaxRetries :: int

datatype event = Arrives string | ReadFails string | TimerFires

record ClientEnv =
  now_UnixNano :: int
  rand_Intn :: int
  now_Unix :: int
  marshal :: "RPCRequest \<Rightarrow> string + string"
  unmarshal :: "string \<Rightarrow> string + RPCResponse"
  Duration_String :: "int \<Rightarrow> string"
  WriteToUDP :: "int \<Rightarrow> string \<Rightarrow> string option"
  blocked_readers :: nat
  socket :: "event list"

text \<open>
  \<open>await\<close> is the \<^verbatim>\<open>select\<close> of one attempt together with the readers of the
  socket: \<open>readers\<close> counts the readers of earlier attempts and calls that are still
  blocked on the socket, all of them ahead of the reader of this attempt. It returns
  what the \<^verbatim>\<open>select\<close> yields (a response that decodes is returned as it is, everything
  else is the error recorded in \<^verbatim>\<open>lastErr\<close>), the number of readers that remain
  blocked, and the events still to come. \<open>attempt\<close> is one iteration of the loop (a
  failed write skips the rest of the iteration), \<open>Call_loop\<close> the loop from
  iteration \<open>retry\<close> on; the second component of its result lists the byte strings
  handed to \<^verbatim>\<open>WriteToUDP\<close>, in order. The pauses between attempts only concern
  time and are left out: a datagram that arrives during a pause is read by the next
  reader in line all the same. The counter \<open>retry\<close> is an unbounded integer: a Go
  \<^verbatim>\<open>int\<close> would wrap around only after \<open>2 ^ 63\<close> attempts.
\<close>

fun await ::
  "RPCClient \<Rightarrow> ClientEnv \<Rightarrow> nat \<Rightarrow> event list
     \<Rightarrow> (string + RPCResponse) \<times> nat \<times> event list" where
  "await c env readers [] =
     (Inl (''timeout after '' @ Duration_String env (Timeout c)), Suc readers, [])"
| "await c env readers (TimerFires # evs) =
     (Inl (''timeout after '' @ Duration_String env (Timeout c)), Suc readers, evs)"
| "await c env readers (Arrives buffer # evs) =
     (if 0 < readers then await c env (readers - 1) evs
      else (case unmarshal env buffer of
              Inl err \<Rightarrow> (Inl err, 0, evs)
            | Inr resp \<Rightarrow> (Inr resp, 0, evs)))"
| "await c env readers (ReadFails err # evs) =
     (if 0 < readers then await c env (readers - 1) evs
      else (Inl err, 0, evs))"

definition attempt ::
  "RPCClient \<Rightarrow> ClientEnv \<Rightarrow> string \<Rightarrow> int \<Rightarrow> nat \<Rightarrow> event list
     \<Rightarrow> (string + RPCResponse) \<times> nat \<times> event list" where
  "attempt c env reqData retry readers evs =
    (case WriteToUDP env retry reqData of
       Some err \<Rightarrow> (Inl err, readers, evs)
     | None \<Rightarrow> await c env readers evs)"

function Call_loop ::
  "RPCClient \<Rightarrow> ClientEnv \<Rightarrow> string \<Rightarrow> int \<Rightarrow> string option \<Rightarrow> nat \<Rightarrow> event list
     \<Rightarrow> (string + RPCResponse) \<times> string list" where
  "Call_loop c env reqData retry lastErr readers evs =
    (if retry \<le> MaxRetries c then
       (case attempt c env reqData retry readers evs of
          (Inr resp, readers', evs') \<Rightarrow> (Inr resp, [reqData])
        | (Inl err, readers', evs') \<Rightarrow>
            (case Call_loop c env reqData (retry + 1) (Some err) readers' evs' of
               (result, writes) \<Rightarrow> (result, reqData # writes)))
     else
       (Inl (''max retries exceeded: '' @ (case lastErr of None \<Rightarrow> ''<nil>'' | Some err \<Rightarrow> err)),
        []))"
  by pat_completeness (simp only: prod.inject)
termination
proof (relation
    "measure (\<lambda>(c, env, reqData, retry, lastErr, readers, evs). nat (MaxRetries c + 1 - retry))")
  show "wf (measure
      (\<lambda>(c, env, reqData, retry, lastErr, readers, evs). nat (MaxRetries c + 1 - retry)))"
    by (rule wf_measure)
next
  fix c :: RPCClient and env :: ClientEnv and reqData :: string and retry :: int
    and lastErr :: "string option" and readers readers' :: nat and evs evs' :: "event list"
    and err :: string
  assume "retry \<le> MaxRetries c"
  then have "nat (MaxRetries c + 1 - (retry + 1)) < nat (MaxRetries c + 1 - retry)"
    by linarith
  then show "((c, env, reqData, retry + 1, Some err, readers', evs'),
       (c, env, reqData, retry, lastErr, readers, evs))
      \<in> measure
          (\<lambda>(c, env, reqData, retry, lastErr, readers, evs). nat (MaxRetries c + 1 - retry))"
    by (simp only: in_measure prod.case)
qed

declare Call_loop.simps [simp del]

definition Call ::
  "RPCClient \<Rightarrow> ClientEnv \<Rightarrow> string \<Rightarrow> (string \<rightharpoonup> any)
     \<Rightarrow> (string + RPCResponse) \<times> string list" where
  "Call c env method params =
    (let requestID = generateRequestID (now_UnixNano env) (rand_Intn env);
         req = \<lparr>RequestID = requestID, Method = method, Params = params,
                Timestamp = now_Unix env\<rparr>
     in case marshal env req of
          Inl err \<Rightarrow> (Inl err, [])
        | Inr reqData \<Rightarrow> Call_loop c env reqData 0 None (blocked_readers env) (socket env))"

section \<open>Notions used to state the properties\<close>

text \<open>
  A validation message names a parameter when it holds the parameter's name between
  single quotes.
\<close>

definition names_parameter :: "string \<Rightarrow> string \<Rightarrow> bool" where
  "names_parameter msg p = sublist ([CHR 0x27] @ p @ [CHR 0x27]) msg"

text \<open>A Unicode scalar value: a code point up to U+10FFFF that is no surrogate.\<close>

definition is_scalar :: "nat \<Rightarrow> bool" where
  "is_scalar r = (r \<le> 0x10FFFF \<and> \<not> (0xD800 \<le> r \<and> r \<le> 0xDFFF))"

text \<open>
  An event that ends the attempt that is waiting with an error of its reader: a failed
  read, or a datagram that does not decode.
\<close>

definition reader_error :: "ClientEnv \<Rightarrow> event \<Rightarrow> bool" where
  "reader_error env e =
    (case e of
       Arrives buffer \<Rightarrow> isl (unmarshal env buffer)
     | ReadFails err \<Rightarrow> True
     | TimerFires \<Rightarrow> False)"

text \<open>
  Sample inputs for the evaluations below: a decoder that knows a well-formed request,
  the JSON text \<^verbatim>\<open>null\<close> (which \<^verbatim>\<open>json.Unmarshal\<close> accepts, leaving the request
  empty) and rejects everything else; an encoder that writes the status, the identifier
  and the error message of a response; a client with three retries; and four
  environments of a call \<^verbatim>\<open>add\<close> whose identifier is
  \<^verbatim>\<open>1700000000000000000-42\<close>. In \<open>stale_env\<close> the first datagram at the socket is
  the response to an earlier call. In \<open>flaky_env\<close> a read fails, the second write
  fails, a datagram does not decode, and then that response to an earlier call arrives.
  In \<open>silent_env\<close> three writes fail and nothing ever arrives. In \<open>delayed_env\<close>
  the first attempt times out and then the response to this very call arrives, the only
  datagram there is.
\<close>

definition example_request :: RPCRequest where
  "example_request =
     \<lparr>RequestID = ''1700000000000000000-42'', Method = ''add'',
      Params = [''a'' \<mapsto> VFloat64 (float64_of_int 5), ''b'' \<mapsto> VFloat64 (float64_of_int 7)],
      Timestamp = 1700000000\<rparr>"

definition example_Unmarshal :: "string \<Rightarrow> string + RPCRequest" where
  "example_Unmarshal buffer =
     (if buffer = ''request'' then Inr example_request
      else if buffer = ''null'' then
        Inr \<lparr>RequestID = [], Method = [], Params = Map.empty, Timestamp = 0\<rparr>
      else Inl ''invalid character'')"

definition example_Marshal :: "RPCResponse \<Rightarrow> string + string" where
  "example_Marshal resp =
     Inr (Status resp @ '' '' @ RespRequestID resp @ '' '' @ Error resp)"

definition example_client :: RPCClient where
  "example_client = \<lparr>Timeout = 2000000000, MaxRetries = 3\<rparr>"

definition stale_response :: RPCResponse where
  "stale_response =
     \<lparr>RespRequestID = ''1699999999000000000-7'', Result = VFloat64 (float64_of_int 12),
      Error = [], Status = ''OK''\<rparr>"

definition stale_env :: ClientEnv where
  "stale_env =
     \<lparr>now_UnixNano = 1700000000000000000, rand_Intn = 42, now_Unix = 1700000000,
      marshal = (\<lambda>req. Inr (RequestID req @ '' '' @ Method req)),
      unmarshal = (\<lambda>buffer. Inr stale_response),
      Duration_String = (\<lambda>d. ''2s''),
      WriteToUDP = (\<lambda>retry reqData. None),
      blocked_readers = 0,
      socket = [Arrives ''late reply'']\<rparr>"

definition flaky_env :: ClientEnv where
  "flaky_env =
     \<lparr>now_UnixNano = 1700000000000000000, rand_Intn = 42, now_Unix = 1700000000,
      marshal = (\<lambda>req. Inr (RequestID req @ '' '' @ Method req)),
      unmarshal = (\<lambda>buffer. if buffer = ''late reply'' then Inr stale_response
                             else Inl ''invalid character''),
      Duration_String = (\<lambda>d. ''2s''),
      WriteToUDP = (\<lambda>retry reqData. if retry = 1 then Some ''network is unreachable'' else None),
      blocked_readers = 0,
      socket = [ReadFails ''connection refused'', Arrives ''garbage'', Arrives ''late reply'']\<rparr>"

definition silent_env :: ClientEnv where
  "silent_env =
     \<lparr>now_UnixNano = 1700000000000000000, rand_Intn = 42, now_Unix = 1700000000,
      marshal = (\<lambda>req. Inr (RequestID req @ '' '' @ Method req)),
      unmarshal = (\<lambda>buffer. Inl ''unexpected end of JSON input''),
      Duration_String = (\<lambda>d. ''2s''),
      WriteToUDP = (\<lambda>retry reqData. if retry = 3 then None else Some ''network is unreachable''),
      blocked_readers = 0,
      socket = []\<rparr>"

definition matching_response :: RPCResponse where
  "matching_response =
     \<lparr>RespRequestID = ''1700000000000000000-42'', Result = VFloat64 (float64_of_int 12),
      Error = [], Status = ''OK''\<rparr>"

definition delayed_env :: ClientEnv where
  "delayed_env =
     \<lparr>now_UnixNano = 1700000000000000000, rand_Intn = 42, now_Unix = 1700000000,
      marshal = (\<lambda>req. Inr (RequestID req @ '' '' @ Method req)),
      unmarshal = (\<lambda>buffer. if buffer = ''reply'' then Inr matching_response
                             else Inl ''invalid character''),
      Duration_String = (\<lambda>d. ''2s''),
      WriteToUDP = (\<lambda>retry reqData. None),
      blocked_readers = 0,
      socket = [TimerFires, Arrives ''reply'']\<rparr>"

section \<open>Properties of the handlers\<close>

lemma float64_of_None_iff: "float64_of v = None \<longleftrightarrow> (\<forall>x. v \<noteq> Some (VFloat64 x))"
  by (simp add: float64_of_def split: option.splits any.splits)

lemma string_of_None_iff: "string_of v = None \<longleftrightarrow> (\<forall>x. v \<noteq> Some (VString x))"
  by (simp add: string_of_def split: option.splits any.splits)

lemma names_a: "names_parameter ''parameters 'a' and 'b' must be numbers'' ''a''"
  unfolding names_parameter_def sublist_def
  by (rule exI[of _ "''parameters ''"], rule exI[of _ "'' and 'b' must be numbers''"]) simp

lemma names_b: "names_parameter ''parameters 'a' and 'b' must be numbers'' ''b''"
  unfolding names_parameter_def sublist_def
  by (rule exI[of _ "''parameters 'a' and ''"], rule exI[of _ "'' must be numbers''"]) simp

lemma names_s: "names_parameter ''parameter 's' must be a string'' ''s''"
  unfolding names_parameter_def sublist_def
  by (rule exI[of _ "''parameter ''"], rule exI[of _ "'' must be a string''"]) simp

lemma arith_result:
  "add p = Inr v \<Longrightarrow> v \<noteq> VNil" "subtract p = Inr v \<Longrightarrow> v \<noteq> VNil"
  "multiply p = Inr v \<Longrightarrow> v \<noteq> VNil" "divide_handler p = Inr v \<Longrightarrow> v \<noteq> VNil"
  by (auto simp: add_def subtract_def multiply_def divide_handler_def
      split: option.splits if_splits)

lemma arith_error:
  "add p = Inl e \<Longrightarrow> e \<noteq> []" "subtract p = Inl e \<Longrightarrow> e \<noteq> []"
  "multiply p = Inl e \<Longrightarrow> e \<noteq> []" "divide_handler p = Inl e \<Longrightarrow> e \<noteq> []"
  by (auto simp: add_def subtract_def multiply_def divide_handler_def
      split: option.splits if_splits)

lemma reverseString_result: "reverseString p = Inr v \<Longrightarrow> v \<noteq> VNil"
  by (auto simp: reverseString_def Let_def split: option.splits)

lemma reverseString_error: "reverseString p = Inl e \<Longrightarrow> e \<noteq> []"
  by (auto simp: reverseString_def Let_def split: option.splits)

lemma invoke_result: "invoke now req = (called, Inr v) \<Longrightarrow> v \<noteq> VNil"
  unfolding invoke_def
  by (auto simp: getTime_def echo_def split: if_splits
      dest: arith_result reverseString_result)

lemma invoke_error: "invoke now req = (called, Inl e) \<Longrightarrow> e \<noteq> []"
  unfolding invoke_def
  by (auto simp: getTime_def echo_def split: if_splits
      dest: arith_error reverseString_error)

text \<open>
  Evaluation of the float64 operations on bit patterns, and the float64 values of the
  integers used in the examples (\<open>float64_of_int\<close> is the conversion
  \<^verbatim>\<open>float64(i)\<close>, which rounds as the operations do).
\<close>

lemmas float64_round = pack_def infinity_def log2_between_def floor_log2_def
  nearest_even_def round_half_even_def scale_round_def round_at_def round_float64_def
  with_sign_def round_sum_def add_aligned_def bitlen.simps

lemmas float64_ops = float64_fields_def unpack_def float64_add_def float64_neg_def float64_sub_def
  float64_mul_def float64_div_def float64_is_zero_def

lemma float64_of_int_bits:
  "float64_of_int 0 = Float64frombits 0"
  "float64_of_int 1 = Float64frombits 0x3FF0000000000000"
  "float64_of_int 3 = Float64frombits 0x4008000000000000"
  "float64_of_int 4 = Float64frombits 0x4010000000000000"
  "float64_of_int 5 = Float64frombits 0x4014000000000000"
  "float64_of_int 6 = Float64frombits 0x4018000000000000"
  "float64_of_int 7 = Float64frombits 0x401C000000000000"
  "float64_of_int 10 = Float64frombits 0x4024000000000000"
  "float64_of_int 12 = Float64frombits 0x4028000000000000"
  "float64_of_int 15 = Float64frombits 0x402E000000000000"
  "float64_of_int 24 = Float64frombits 0x4038000000000000"
  by (simp_all add: float64_of_int_def float64_round)

lemma add_5_7: "float64_add (float64_of_int 5) (float64_of_int 7) = float64_of_int 12"
  unfolding float64_of_int_bits by (simp add: float64_ops) (simp add: float64_round)

lemma sub_10_3: "float64_sub (float64_of_int 10) (float64_of_int 3) = float64_of_int 7"
  unfolding float64_of_int_bits by (simp add: float64_ops) (simp add: float64_round)

lemma mul_4_6: "float64_mul (float64_of_int 4) (float64_of_int 6) = float64_of_int 24"
  unfolding float64_of_int_bits by (simp add: float64_ops) (simp add: float64_round)

lemma div_15_3: "float64_div (float64_of_int 15) (float64_of_int 3) = float64_of_int 5"
  unfolding float64_of_int_bits by (simp add: float64_ops) (simp add: float64_round)

lemma div_1_3:
  "float64_div (float64_of_int 1) (float64_of_int 3) = Float64frombits 0x3FD5555555555555"
  unfolding float64_of_int_bits by (simp add: float64_ops) (simp add: float64_round)

lemma add_overflow:
  "float64_add (Float64frombits 0x7FEFFFFFFFFFFFFF) (Float64frombits 0x7FEFFFFFFFFFFFFF) =
     Float64frombits 0x7FF0000000000000"
  by (simp add: float64_ops) (simp add: float64_round)

lemma float64_is_zero_examples:
  "float64_is_zero (float64_of_int 0)"
  "float64_is_zero (Float64frombits 0x8000000000000000)"
  "\<not> float64_is_zero (float64_of_int 3)"
  unfolding float64_of_int_bits by (simp_all add: float64_ops)

text \<open>
  More evaluations, against the results of the hardware: a sum that is rounded
  (0.1 + 0.2), ties that go to the even significand (\<open>2 ^ 53 + 1\<close>, and
  \<open>2 ^ 53 + 2 + 1\<close>), a product that overflows (\<open>1e200 * 1e200\<close>), quotients in
  the subnormal range, the sign of a zero result, and operations that yield no number.
\<close>

lemma float64_rounding_examples:
  "float64_add (Float64frombits 0x3FB999999999999A) (Float64frombits 0x3FC999999999999A) =
     Float64frombits 0x3FD3333333333334"
  "float64_add (Float64frombits 0x4340000000000000) (Float64frombits 0x3FF0000000000000) =
     Float64frombits 0x4340000000000000"
  "float64_add (Float64frombits 0x4340000000000001) (Float64frombits 0x3FF0000000000000) =
     Float64frombits 0x4340000000000002"
  "float64_mul (Float64frombits 0x6974E718D7D7625A) (Float64frombits 0x6974E718D7D7625A) =
     Float64frombits 0x7FF0000000000000"
  "float64_div (Float64frombits 0x0000000000000001) (Float64frombits 0x4000000000000000) =
     Float64frombits 0"
  "float64_div (Float64frombits 0x0000000000000003) (Float64frombits 0x4000000000000000) =
     Float64frombits 0x0000000000000002"
  "float64_div (Float64frombits 0x0010000000000000) (Float64frombits 0x4000000000000000) =
     Float64frombits 0x0008000000000000"
  "float64_sub (Float64frombits 0x3FF0000000000000) (Float64frombits 0x3FF0000000000000) =
     Float64frombits 0"
  "float64_add (Float64frombits 0x8000000000000000) (Float64frombits 0x8000000000000000) =
     Float64frombits 0x8000000000000000"
  "float64_mul (Float64frombits 0xBFF0000000000000) (Float64frombits 0) =
     Float64frombits 0x8000000000000000"
  "float64_sub (Float64frombits 0x7FF0000000000000) (Float64frombits 0x7FF0000000000000) = NaN"
  "float64_mul (Float64frombits 0x7FF0000000000000) (Float64frombits 0) = NaN"
  "float64_div (Float64frombits 0x3FF0000000000000) (Float64frombits 0x7FF8000000000000) = NaN"
  by (simp_all add: float64_ops) (simp_all add: float64_round)

text \<open>
  Claim C5 (arithmetic handler correctness). When \<open>a\<close> and \<open>b\<close> are numbers (both
  parameters hold a float64, the type every JSON number decodes to), the four
  arithmetic handlers return the float64 sum, difference, product and, for \<open>b\<close>
  other than zero, quotient of \<open>a\<close> and \<open>b\<close>, each with no error; \<open>divide\<close> with
  \<open>b\<close> zero returns the error "division by zero" and no result. The witness evaluates
  the examples of the specification, add(5,7) = 12, subtract(10,3) = 7,
  multiply(4,6) = 24, divide(15,3) = 5 and divide(5,0), then a quotient that is rounded,
  divide(1,3), and a sum that overflows to \<open>+Inf\<close>, the largest finite float64 added
  to itself.
\<close>

theorem arithmetic_handlers:
  assumes "params ''a'' = Some (VFloat64 a)" and "params ''b'' = Some (VFloat64 b)"
  shows "add params = Inr (VFloat64 (float64_add a b)) \<and>
         subtract params = Inr (VFloat64 (float64_sub a b)) \<and>
         multiply params = Inr (VFloat64 (float64_mul a b)) \<and>
         divide_handler params =
           (if float64_is_zero b then Inl ''division by zero''
            else Inr (VFloat64 (float64_div a b)))"
  using assms
  by (simp add: add_def subtract_def multiply_def divide_handler_def float64_of_def)

theorem arithmetic_handlers_witness:
  "add [''a'' \<mapsto> VFloat64 (float64_of_int 5), ''b'' \<mapsto> VFloat64 (float64_of_int 7)] =
     Inr (VFloat64 (float64_of_int 12)) \<and>
   subtract [''a'' \<mapsto> VFloat64 (float64_of_int 10), ''b'' \<mapsto> VFloat64 (float64_of_int 3)] =
     Inr (VFloat64 (float64_of_int 7)) \<and>
   multiply [''a'' \<mapsto> VFloat64 (float64_of_int 4), ''b'' \<mapsto> VFloat64 (float64_of_int 6)] =
     Inr (VFloat64 (float64_of_int 24)) \<and>
   divide_handler [''a'' \<mapsto> VFloat64 (float64_of_int 15), ''b'' \<mapsto> VFloat64 (float64_of_int 3)] =
     Inr (VFloat64 (float64_of_int 5)) \<and>
   divide_handler [''a'' \<mapsto> VFloat64 (float64_of_int 5), ''b'' \<mapsto> VFloat64 (float64_of_int 0)] =
     Inl ''division by zero'' \<and>
   divide_handler [''a'' \<mapsto> VFloat64 (float64_of_int 1), ''b'' \<mapsto> VFloat64 (float64_of_int 3)] =
     Inr (VFloat64 (Float64frombits 0x3FD5555555555555)) \<and>
   add [''a'' \<mapsto> VFloat64 (Float64frombits 0x7FEFFFFFFFFFFFFF),
        ''b'' \<mapsto> VFloat64 (Float64frombits 0x7FEFFFFFFFFFFFFF)] =
     Inr (VFloat64 (Float64frombits 0x7FF0000000000000))"
  using
    arithmetic_handlers [of "[''a'' \<mapsto> VFloat64 (float64_of_int 5), ''b'' \<mapsto> VFloat64 (float64_of_int 7)]"
      "float64_of_int 5" "float64_of_int 7"]
    arithmetic_handlers [of "[''a'' \<mapsto> VFloat64 (float64_of_int 10), ''b'' \<mapsto> VFloat64 (float64_of_int 3)]"
      "float64_of_int 10" "float64_of_int 3"]
    arithmetic_handlers [of "[''a'' \<mapsto> VFloat64 (float64_of_int 4), ''b'' \<mapsto> VFloat64 (float64_of_int 6)]"
      "float64_of_int 4" "float64_of_int 6"]
    arithmetic_handlers [of "[''a'' \<mapsto> VFloat64 (float64_of_int 15), ''b'' \<mapsto> VFloat64 (float64_of_int 3)]"
      "float64_of_int 15" "float64_of_int 3"]
    arithmetic_handlers [of "[''a'' \<mapsto> VFloat64 (float64_of_int 5), ''b'' \<mapsto> VFloat64 (float64_of_int 0)]"
      "float64_of_int 5" "float64_of_int 0"]
    arithmetic_handlers [of "[''a'' \<mapsto> VFloat64 (float64_of_int 1), ''b'' \<mapsto> VFloat64 (float64_of_int 3)]"
      "float64_of_int 1" "float64_of_int 3"]
    arithmetic_handlers [of "[''a'' \<mapsto> VFloat64 (Float64frombits 0x7FEFFFFFFFFFFFFF),
        ''b'' \<mapsto> VFloat64 (Float64frombits 0x7FEFFFFFFFFFFFFF)]"
      "Float64frombits 0x7FEFFFFFFFFFFFFF" "Float64frombits 0x7FEFFFFFFFFFFFFF"]
  by (simp add: add_5_7 sub_10_3 mul_4_6 div_15_3 div_1_3 add_overflow float64_is_zero_examples)

text \<open>
  Claim C6 (type validation names the offending parameter). When parameter \<open>a\<close> or
  parameter \<open>b\<close> is not a number, each arithmetic handler returns no result and the
  validation error "parameters 'a' and 'b' must be numbers", which names both
  parameters and so the offending one; when \<open>s\<close> is not a string,
  \<open>reverse_string\<close> returns no result and the error "parameter 's' must be a string".
\<close>

theorem type_validation:
  "((\<forall>x. params ''a'' \<noteq> Some (VFloat64 x)) \<or> (\<forall>x. params ''b'' \<noteq> Some (VFloat64 x)) \<longrightarrow>
      (\<exists>msg. add params = Inl msg \<and> subtract params = Inl msg \<and>
             multiply params = Inl msg \<and> divide_handler params = Inl msg \<and>
             msg = ''parameters 'a' and 'b' must be numbers'' \<and>
             names_parameter msg ''a'' \<and> names_parameter msg ''b'')) \<and>
   ((\<forall>x. params ''s'' \<noteq> Some (VString x)) \<longrightarrow>
      (\<exists>msg. reverseString params = Inl msg \<and>
             msg = ''parameter 's' must be a string'' \<and> names_parameter msg ''s''))"
proof (intro conjI impI)
  assume "(\<forall>x. params ''a'' \<noteq> Some (VFloat64 x)) \<or> (\<forall>x. params ''b'' \<noteq> Some (VFloat64 x))"
  then have "float64_of (params ''a'') = None \<or> float64_of (params ''b'') = None"
    by (simp add: float64_of_None_iff)
  then have "add params = Inl ''parameters 'a' and 'b' must be numbers''"
    and "subtract params = Inl ''parameters 'a' and 'b' must be numbers''"
    and "multiply params = Inl ''parameters 'a' and 'b' must be numbers''"
    and "divide_handler params = Inl ''parameters 'a' and 'b' must be numbers''"
    by (auto simp: add_def subtract_def multiply_def divide_handler_def split: option.splits)
  then show "\<exists>msg. add params = Inl msg \<and> subtract params = Inl msg \<and>
             multiply params = Inl msg \<and> divide_handler params = Inl msg \<and>
             msg = ''parameters 'a' and 'b' must be numbers'' \<and>
             names_parameter msg ''a'' \<and> names_parameter msg ''b''"
    using names_a names_b by simp
next
  assume "\<forall>x. params ''s'' \<noteq> Some (VString x)"
  then have "string_of (params ''s'') = None"
    by (simp add: string_of_None_iff)
  then have "reverseString params = Inl ''parameter 's' must be a string''"
    by (simp add: reverseString_def)
  then show "\<exists>msg. reverseString params = Inl msg \<and>
             msg = ''parameter 's' must be a string'' \<and> names_parameter msg ''s''"
    using names_s by simp
qed

theorem type_validation_witness:
  "add [''a'' \<mapsto> VString ''x'', ''b'' \<mapsto> VFloat64 (float64_of_int 1)] = Inl ''parameters 'a' and 'b' must be numbers'' \<and>
   names_parameter ''parameters 'a' and 'b' must be numbers'' ''a'' \<and>
   reverseString [''s'' \<mapsto> VFloat64 (float64_of_int 3)] = Inl ''parameter 's' must be a string''"
  using type_validation [of "[''a'' \<mapsto> VString ''x'', ''b'' \<mapsto> VFloat64 (float64_of_int 1)]"]
    type_validation [of "[''s'' \<mapsto> VFloat64 (float64_of_int 3)]"]
  by simp

section \<open>Properties of the dispatcher\<close>

text \<open>
  Claim C3 (response envelope invariant). For every request and every state of the
  request log, the response built by \<open>ExecuteMethod\<close> carries the request's
  identifier, its status is OK, ERROR or DUPLICATE, its result is non-nil exactly when
  the status is OK, and its error message is non-empty exactly when the status is ERROR
  or DUPLICATE.
\<close>

theorem ExecuteMethod_envelope:
  "RespRequestID (fst (ExecuteMethod s now req)) = RequestID req \<and>
   Status (fst (ExecuteMethod s now req)) \<in> {''OK'', ''ERROR'', ''DUPLICATE''} \<and>
   (Result (fst (ExecuteMethod s now req)) \<noteq> VNil \<longleftrightarrow>
      Status (fst (ExecuteMethod s now req)) = ''OK'') \<and>
   (Error (fst (ExecuteMethod s now req)) \<noteq> [] \<longleftrightarrow>
      Status (fst (ExecuteMethod s now req)) = ''ERROR'' \<or>
      Status (fst (ExecuteMethod s now req)) = ''DUPLICATE'')"
proof (cases "requestLog s (RequestID req) \<noteq> None")
  case True
  then show ?thesis by (simp add: ExecuteMethod_def)
next
  case False
  obtain called r where inv: "invoke now req = (called, r)"
    by (cases "invoke now req")
  show ?thesis
  proof (cases r)
    case (Inl e)
    with inv have "e \<noteq> []" by (auto dest: invoke_error)
    with False inv Inl show ?thesis by (simp add: ExecuteMethod_def)
  next
    case (Inr v)
    with inv have "v \<noteq> VNil" by (auto dest: invoke_result)
    with False inv Inr show ?thesis by (simp add: ExecuteMethod_def)
  qed
qed

theorem ExecuteMethod_envelope_witness:
  "fst (ExecuteMethod \<lparr>requestLog = Map.empty\<rparr> 1700000000
     \<lparr>RequestID = ''r1'', Method = ''divide'',
      Params = [''a'' \<mapsto> VFloat64 (float64_of_int 5), ''b'' \<mapsto> VFloat64 (float64_of_int 0)],
      Timestamp = 0\<rparr>) =
   \<lparr>RespRequestID = ''r1'', Result = VNil, Error = ''division by zero'', Status = ''ERROR''\<rparr>"
  using ExecuteMethod_envelope [of "\<lparr>requestLog = Map.empty\<rparr>" 1700000000
     "\<lparr>RequestID = ''r1'', Method = ''divide'',
      Params = [''a'' \<mapsto> VFloat64 (float64_of_int 5), ''b'' \<mapsto> VFloat64 (float64_of_int 0)],
      Timestamp = 0\<rparr>"]
  by (simp add: ExecuteMethod_def invoke_def divide_handler_def float64_of_def
      float64_is_zero_examples)

lemma ExecuteMethod_fresh_status:
  "requestLog s (RequestID req) = None \<Longrightarrow>
   Status (fst (ExecuteMethod s now req)) \<noteq> ''DUPLICATE''"
  by (simp add: ExecuteMethod_def Let_def split: prod.splits sum.splits)

lemma ExecuteMethod_logged:
  "requestLog (fst (snd (ExecuteMethod s now req))) (RequestID req) \<noteq> None"
  by (auto simp: ExecuteMethod_def Let_def split: prod.splits sum.splits)

lemma ExecuteMethod_replay:
  "ExecuteMethod (fst (snd (ExecuteMethod s now req))) now' req =
     (\<lparr>RespRequestID = RequestID req, Result = VNil,
       Error = ''Request already processed'', Status = ''DUPLICATE''\<rparr>,
      fst (snd (ExecuteMethod s now req)), [])"
  using ExecuteMethod_logged [of s now req] by (simp add: ExecuteMethod_def)

lemma handleMessage_never_duplicate:
  "Status (response (handleMessage json_Unmarshal json_Marshal now buffer)) \<noteq> ''DUPLICATE''"
proof (cases "ParseInput json_Unmarshal buffer")
  case (Inl err)
  then show ?thesis
    by (simp add: handleMessage_def HandleErr_def Let_def)
next
  case (Inr msg)
  obtain resp s' calls where ex: "ExecuteMethod \<lparr>requestLog = Map.empty\<rparr> now msg = (resp, s', calls)"
    by (cases "ExecuteMethod \<lparr>requestLog = Map.empty\<rparr> now msg")
  have "Status resp \<noteq> ''DUPLICATE''"
    using ExecuteMethod_fresh_status [of "\<lparr>requestLog = Map.empty\<rparr>" msg now] ex by simp
  with Inr ex show ?thesis
    by (simp add: handleMessage_def HandleErr_def Let_def split: sum.splits)
qed

lemma Run_never_duplicate:
  "h \<in> set (Run json_Unmarshal json_Marshal datagrams) \<Longrightarrow>
   Status (response h) \<noteq> ''DUPLICATE''"
  by (auto simp: Run_def handleMessage_never_duplicate)

text \<open>
  Claim C1 (at-most-once execution under retry) asks for one OK or ERROR outcome and
  otherwise DUPLICATE outcomes when the same encoded request is delivered several times.
  \<open>ExecuteMethod_replay\<close> shows that \<open>ExecuteMethod\<close> does answer DUPLICATE when it
  is run twice on one service. But \<open>handleMessage\<close> runs it on a new service for
  every datagram (\<open>handleMessage_never_duplicate\<close>): delivering the request twice
  runs the handler twice and yields two OK outcomes.
\<close>

theorem retried_request_executed_twice:
  "map (\<lambda>h. (Status (response h), handler_calls h))
     (Run example_Unmarshal example_Marshal
        [(1700000000, ''request''), (1700000002, ''request'')]) =
   [(''OK'', [''add'']), (''OK'', [''add''])]"
  by (simp add: Run_def handleMessage_def ParseInput_def example_Unmarshal_def
      example_request_def example_Marshal_def ExecuteMethod_def invoke_def add_def
      float64_of_def)

text \<open>
  Claim C4 (request validation). When \<^verbatim>\<open>json.Unmarshal\<close> rejects the buffer, or the
  request it yields has an empty \<open>request_id\<close> or an empty \<open>method\<close>, \<open>ParseInput\<close>
  returns an error, and \<open>handleMessage\<close> sends a response with status ERROR that
  carries the error, without calling any handler: the bytes it hands to
  \<^verbatim>\<open>WriteToUDP\<close> are the encoding of that response (no bytes if the encoder fails,
  which \<^verbatim>\<open>HandleErr\<close> ignores). When the buffer decodes to a request with both
  fields non-empty, \<open>ParseInput\<close> returns that request.
\<close>

theorem request_validation:
  "((\<exists>e. json_Unmarshal buffer = Inl e) \<or>
    (\<exists>req. json_Unmarshal buffer = Inr req \<and> (RequestID req = [] \<or> Method req = [])) \<longrightarrow>
      (\<exists>err. ParseInput json_Unmarshal buffer = Inl err \<and>
         response (handleMessage json_Unmarshal json_Marshal now buffer) =
           \<lparr>RespRequestID = [], Result = VNil,
            Error = ''error parsing inputs: '' @ err, Status = ''ERROR''\<rparr> \<and>
         datagram (handleMessage json_Unmarshal json_Marshal now buffer) =
           (case json_Marshal
                   \<lparr>RespRequestID = [], Result = VNil,
                    Error = ''error parsing inputs: '' @ err, Status = ''ERROR''\<rparr> of
              Inr respData \<Rightarrow> respData
            | Inl _ \<Rightarrow> [])) \<and>
      Status (response (handleMessage json_Unmarshal json_Marshal now buffer)) = ''ERROR'' \<and>
      handler_calls (handleMessage json_Unmarshal json_Marshal now buffer) = []) \<and>
   (\<forall>req. json_Unmarshal buffer = Inr req \<and> RequestID req \<noteq> [] \<and> Method req \<noteq> [] \<longrightarrow>
      ParseInput json_Unmarshal buffer = Inr req)"
proof (intro conjI impI allI)
  assume bad: "(\<exists>e. json_Unmarshal buffer = Inl e) \<or>
    (\<exists>req. json_Unmarshal buffer = Inr req \<and> (RequestID req = [] \<or> Method req = []))"
  then have "\<exists>err. ParseInput json_Unmarshal buffer = Inl err"
    by (auto simp: ParseInput_def)
  then obtain err where err: "ParseInput json_Unmarshal buffer = Inl err" ..
  from err have resp: "response (handleMessage json_Unmarshal json_Marshal now buffer) =
      \<lparr>RespRequestID = [], Result = VNil,
       Error = ''error parsing inputs: '' @ err, Status = ''ERROR''\<rparr>"
    by (simp add: handleMessage_def HandleErr_def Let_def)
  from err have sent: "datagram (handleMessage json_Unmarshal json_Marshal now buffer) =
      (case json_Marshal
              \<lparr>RespRequestID = [], Result = VNil,
               Error = ''error parsing inputs: '' @ err, Status = ''ERROR''\<rparr> of
         Inr respData \<Rightarrow> respData
       | Inl _ \<Rightarrow> [])"
    by (simp add: handleMessage_def HandleErr_def Let_def)
  from err resp sent show "\<exists>err. ParseInput json_Unmarshal buffer = Inl err \<and>
      response (handleMessage json_Unmarshal json_Marshal now buffer) =
        \<lparr>RespRequestID = [], Result = VNil,
         Error = ''error parsing inputs: '' @ err, Status = ''ERROR''\<rparr> \<and>
      datagram (handleMessage json_Unmarshal json_Marshal now buffer) =
        (case json_Marshal
                \<lparr>RespRequestID = [], Result = VNil,
                 Error = ''error parsing inputs: '' @ err, Status = ''ERROR''\<rparr> of
           Inr respData \<Rightarrow> respData
         | Inl _ \<Rightarrow> [])"
    by blast
  from err show "Status (response (handleMessage json_Unmarshal json_Marshal now buffer)) = ''ERROR''"
    by (simp add: handleMessage_def HandleErr_def Let_def)
  from err show "handler_calls (handleMessage json_Unmarshal json_Marshal now buffer) = []"
    by (simp add: handleMessage_def HandleErr_def Let_def)
next
  fix req
  assume "json_Unmarshal buffer = Inr req \<and> RequestID req \<noteq> [] \<and> Method req \<noteq> []"
  then show "ParseInput json_Unmarshal buffer = Inr req"
    by (simp add: ParseInput_def)
qed

theorem request_validation_witness:
  "ParseInput example_Unmarshal ''request'' = Inr example_request \<and>
   Status (response (handleMessage example_Unmarshal example_Marshal 0 ''{'')) = ''ERROR'' \<and>
   datagram (handleMessage example_Unmarshal example_Marshal 0 ''{'') =
     ''ERROR  error parsing inputs: failed to parse JSON: invalid character'' \<and>
   handler_calls (handleMessage example_Unmarshal example_Marshal 0 ''{'') = [] \<and>
   Status (response (handleMessage example_Unmarshal example_Marshal 0 ''null'')) = ''ERROR'' \<and>
   datagram (handleMessage example_Unmarshal example_Marshal 0 ''null'') =
     ''ERROR  error parsing inputs: request_id is required'' \<and>
   handler_calls (handleMessage example_Unmarshal example_Marshal 0 ''null'') = []"
  using request_validation [of example_Unmarshal "''request''" example_Marshal 0]
    request_validation [of example_Unmarshal "''{''" example_Marshal 0]
    request_validation [of example_Unmarshal "''null''" example_Marshal 0]
  by (auto simp: example_Unmarshal_def example_request_def example_Marshal_def ParseInput_def)

section \<open>Properties of the client\<close>

lemma digit_inj: "a < 10 \<Longrightarrow> b < 10 \<Longrightarrow> digit a = digit b \<Longrightarrow> a = b"
proof -
  assume a: "a < 10" and b: "b < 10" and eq: "digit a = digit b"
  have d: "distinct ''0123456789''" by simp
  have "a < length ''0123456789''" "b < length ''0123456789''" using a b by simp_all
  with d eq show "a = b" unfolding digit_def by (simp only: nth_eq_iff_index_eq)
qed

lemma digit_not_dash: "d < 10 \<Longrightarrow> digit d \<noteq> CHR ''-''"
proof -
  assume "d < 10"
  then have "digit d \<in> set ''0123456789''" unfolding digit_def by (intro nth_mem) simp
  then show ?thesis by auto
qed

lemma format_nat_not_empty: "format_nat n \<noteq> []"
  by (subst format_nat.simps) simp

lemma format_nat_no_dash: "CHR ''-'' \<notin> set (format_nat n)"
proof (induction n rule: format_nat.induct)
  case (1 n)
  show ?case
  proof (cases "n < 10")
    case True
    then show ?thesis using digit_not_dash [of n] by (subst format_nat.simps) auto
  next
    case False
    have "n mod 10 < 10" by simp
    then have "digit (n mod 10) \<noteq> CHR ''-''" by (rule digit_not_dash)
    with False 1 show ?thesis by (subst format_nat.simps) auto
  qed
qed

lemma format_nat_inj: "format_nat n = format_nat m \<Longrightarrow> n = m"
proof (induction n arbitrary: m rule: format_nat.induct)
  case (1 n)
  show ?case
  proof (cases "n < 10")
    case True
    have "m < 10"
    proof (rule ccontr)
      assume "\<not> m < 10"
      then have "format_nat m = format_nat (m div 10) @ [digit (m mod 10)]"
        by (subst format_nat.simps) simp
      moreover have "format_nat n = [digit n]" using True by (subst format_nat.simps) simp
      ultimately show False using 1(2) format_nat_not_empty [of "m div 10"] by simp
    qed
    moreover have "format_nat n = [digit n]" using True by (subst format_nat.simps) simp
    moreover have "format_nat m = [digit m]" using \<open>m < 10\<close> by (subst format_nat.simps) simp
    ultimately show ?thesis using True 1(2) digit_inj by simp
  next
    case False
    then have n: "format_nat n = format_nat (n div 10) @ [digit (n mod 10)]"
      by (subst format_nat.simps) simp
    have "\<not> m < 10"
    proof
      assume "m < 10"
      then have "format_nat m = [digit m]" by (subst format_nat.simps) simp
      with n 1(2) show False using format_nat_not_empty [of "n div 10"] by simp
    qed
    then have m: "format_nat m = format_nat (m div 10) @ [digit (m mod 10)]"
      by (subst format_nat.simps) simp
    from n m 1(2) have eq1: "format_nat (n div 10) = format_nat (m div 10)"
      and eq2: "digit (n mod 10) = digit (m mod 10)" by simp_all
    from 1(1) [OF False eq1] have "n div 10 = m div 10" .
    moreover from eq2 have "n mod 10 = m mod 10" by (intro digit_inj) simp_all
    ultimately show ?thesis by (metis div_mult_mod_eq)
  qed
qed

lemma format_d_inj: "format_d i = format_d j \<Longrightarrow> i = j"
proof -
  assume eq: "format_d i = format_d j"
  have hd_nat: "\<And>n. hd (format_nat n) \<noteq> CHR ''-''"
    using format_nat_no_dash format_nat_not_empty by (metis hd_in_set)
  show "i = j"
  proof (cases "i < 0")
    case True
    have "j < 0"
    proof (rule ccontr)
      assume "\<not> j < 0"
      with True eq have "CHR ''-'' # format_nat (nat (- i)) = format_nat (nat j)"
        by (simp add: format_d_def)
      then have "hd (format_nat (nat j)) = CHR ''-''" by (metis list.sel(1))
      with hd_nat show False by blast
    qed
    with True eq have "format_nat (nat (- i)) = format_nat (nat (- j))"
      by (simp add: format_d_def)
    then have "nat (- i) = nat (- j)" by (rule format_nat_inj)
    with True \<open>j < 0\<close> show ?thesis by linarith
  next
    case False
    have "\<not> j < 0"
    proof
      assume "j < 0"
      with False eq have "format_nat (nat i) = CHR ''-'' # format_nat (nat (- j))"
        by (simp add: format_d_def)
      then have "hd (format_nat (nat i)) = CHR ''-''" by (metis list.sel(1))
      with hd_nat show False by blast
    qed
    with False eq have "format_nat (nat i) = format_nat (nat j)"
      by (simp add: format_d_def)
    then have "nat i = nat j" by (rule format_nat_inj)
    with False \<open>\<not> j < 0\<close> show ?thesis by linarith
  qed
qed

lemma split_at_last_dash:
  assumes "a @ CHR ''-'' # b = a' @ CHR ''-'' # b'"
    and "CHR ''-'' \<notin> set b" and "CHR ''-'' \<notin> set b'"
  shows "a = a' \<and> b = b'"
proof -
  have tw: "takeWhile (\<lambda>c. c \<noteq> CHR ''-'') (xs @ CHR ''-'' # ys) = xs"
    if "CHR ''-'' \<notin> set xs" for xs ys :: string
    using that by (induction xs) auto
  have dw: "dropWhile (\<lambda>c. c \<noteq> CHR ''-'') (xs @ CHR ''-'' # ys) = CHR ''-'' # ys"
    if "CHR ''-'' \<notin> set xs" for xs ys :: string
    using that by (induction xs) auto
  have eq: "rev b @ CHR ''-'' # rev a = rev b' @ CHR ''-'' # rev a'"
    using arg_cong [OF assms(1), of rev] by simp
  have nb: "CHR ''-'' \<notin> set (rev b)" and nb': "CHR ''-'' \<notin> set (rev b')"
    using assms(2,3) by simp_all
  have "rev b = rev b'"
    using arg_cong [OF eq, of "takeWhile (\<lambda>c. c \<noteq> CHR ''-'')"]
    by (simp only: tw [OF nb] tw [OF nb'])
  moreover have "CHR ''-'' # rev a = CHR ''-'' # rev a'"
    using arg_cong [OF eq, of "dropWhile (\<lambda>c. c \<noteq> CHR ''-'')"]
    by (simp only: dw [OF nb] dw [OF nb'])
  ultimately show ?thesis by simp
qed

lemma example_request_id:
  "generateRequestID 1700000000000000000 42 = ''1700000000000000000-42''"
  by (simp add: generateRequestID_def format_d_def format_nat.simps digit_def)

lemma Call_loop_induct [consumes 0, case_names step]:
  assumes "\<And>c env reqData retry lastErr readers evs.
     (\<And>err readers' evs'. retry \<le> MaxRetries c \<Longrightarrow>
        attempt c env reqData retry readers evs = (Inl err, readers', evs') \<Longrightarrow>
        P c env reqData (retry + 1) (Some err) readers' evs') \<Longrightarrow>
     P c env reqData retry lastErr readers evs"
  shows "P c env reqData retry lastErr readers evs"
proof (induction c env reqData retry lastErr readers evs rule: Call_loop.induct)
  case (1 c env reqData retry lastErr readers evs)
  show ?case
  proof (rule assms)
    fix err readers' evs'
    assume "retry \<le> MaxRetries c"
      and "attempt c env reqData retry readers evs = (Inl err, readers', evs')"
    then show "P c env reqData (retry + 1) (Some err) readers' evs'"
      using 1 by simp
  qed
qed

lemma Call_loop_done:
  "\<not> retry \<le> MaxRetries c \<Longrightarrow>
   Call_loop c env reqData retry lastErr readers evs =
     (Inl (''max retries exceeded: '' @ (case lastErr of None \<Rightarrow> ''<nil>'' | Some err \<Rightarrow> err)),
      [])"
  by (subst Call_loop.simps) simp

lemma Call_loop_response:
  "retry \<le> MaxRetries c \<Longrightarrow>
   attempt c env reqData retry readers evs = (Inr resp, readers', evs') \<Longrightarrow>
   Call_loop c env reqData retry lastErr readers evs = (Inr resp, [reqData])"
  by (subst Call_loop.simps) simp

lemma Call_loop_error:
  "retry \<le> MaxRetries c \<Longrightarrow>
   attempt c env reqData retry readers evs = (Inl err, readers', evs') \<Longrightarrow>
   Call_loop c env reqData retry lastErr readers evs =
     (fst (Call_loop c env reqData (retry + 1) (Some err) readers' evs'),
      reqData # snd (Call_loop c env reqData (retry + 1) (Some err) readers' evs'))"
  by (subst Call_loop.simps) (simp add: case_prod_beta)

lemma Call_loop_writes:
  "snd (Call_loop c env reqData retry lastErr readers evs) =
     replicate (length (snd (Call_loop c env reqData retry lastErr readers evs))) reqData \<and>
   length (snd (Call_loop c env reqData retry lastErr readers evs)) \<le>
     nat (MaxRetries c + 1 - retry)"
proof (induction c env reqData retry lastErr readers evs rule: Call_loop_induct)
  case (step c env reqData retry lastErr readers evs)
  show ?case
  proof (cases "retry \<le> MaxRetries c")
    case False
    then show ?thesis by (simp add: Call_loop_done)
  next
    case True
    obtain r readers' evs' where a: "attempt c env reqData retry readers evs = (r, readers', evs')"
      by (cases "attempt c env reqData retry readers evs")
    show ?thesis
    proof (cases r)
      case (Inr resp)
      with True a show ?thesis by (simp add: Call_loop_response)
    next
      case (Inl err)
      let ?rest = "snd (Call_loop c env reqData (retry + 1) (Some err) readers' evs')"
      from step [OF True] a Inl
      have ih: "?rest = replicate (length ?rest) reqData"
        and len: "length ?rest \<le> nat (MaxRetries c + 1 - (retry + 1))" by simp_all
      have unfold: "snd (Call_loop c env reqData retry lastErr readers evs) = reqData # ?rest"
        using True a Inl by (simp add: Call_loop_error)
      have "reqData # ?rest = replicate (length (reqData # ?rest)) reqData"
        using ih by simp
      moreover have "length (reqData # ?rest) \<le> nat (MaxRetries c + 1 - retry)"
        using len True by simp
      ultimately show ?thesis unfolding unfold by simp
    qed
  qed
qed

lemma Call_no_attempts:
  "MaxRetries c < 0 \<Longrightarrow>
   marshal env
     \<lparr>RequestID = generateRequestID (now_UnixNano env) (rand_Intn env),
      Method = method, Params = params, Timestamp = now_Unix env\<rparr> = Inr reqData \<Longrightarrow>
   Call c env method params = (Inl ''max retries exceeded: <nil>'', [])"
  by (simp add: Call_def Let_def Call_loop_done)

lemma await_reader_error:
  "reader_error env e \<Longrightarrow> \<exists>err. await c env 0 (e # evs) = (Inl err, 0, evs)"
  by (cases e) (auto simp: reader_error_def split: sum.splits)

lemma await_response:
  "unmarshal env buffer = Inr resp \<Longrightarrow> await c env 0 (Arrives buffer # evs) = (Inr resp, 0, evs)"
  by simp

lemma Call_loop_first_decoded:
  "readers = 0 \<Longrightarrow> evs = pre @ Arrives buffer # rest \<Longrightarrow>
   \<forall>e \<in> set pre. reader_error env e \<Longrightarrow>
   length pre < length (filter (\<lambda>i. WriteToUDP env i reqData = None) [retry..MaxRetries c]) \<Longrightarrow>
   unmarshal env buffer = Inr resp \<Longrightarrow>
   fst (Call_loop c env reqData retry lastErr readers evs) = Inr resp"
proof (induction c env reqData retry lastErr readers evs arbitrary: pre
    rule: Call_loop_induct)
  case (step c env reqData retry lastErr readers evs)
  have le: "retry \<le> MaxRetries c"
  proof (rule ccontr)
    assume "\<not> retry \<le> MaxRetries c"
    then have "[retry..MaxRetries c] = []" by simp
    with step.prems(4) show False by simp
  qed
  then have upto: "[retry..MaxRetries c] = retry # [retry + 1..MaxRetries c]"
    by (rule upto_rec1)
  show ?case
  proof (cases "WriteToUDP env retry reqData")
    case (Some err)
    then have a: "attempt c env reqData retry readers evs = (Inl err, readers, evs)"
      by (simp add: attempt_def)
    have "length pre <
        length (filter (\<lambda>i. WriteToUDP env i reqData = None) [retry + 1..MaxRetries c])"
      using step.prems(4) Some unfolding upto by simp
    then have "fst (Call_loop c env reqData (retry + 1) (Some err) readers evs) = Inr resp"
      using step.prems(1,2,3,5) by (intro step.IH [OF le a]) simp_all
    with le a show ?thesis by (simp add: Call_loop_error)
  next
    case None
    then have a: "attempt c env reqData retry readers evs = await c env 0 evs"
      using step.prems(1) by (simp add: attempt_def)
    show ?thesis
    proof (cases pre)
      case Nil
      then have "attempt c env reqData retry readers evs = (Inr resp, 0, rest)"
        using a step.prems(2,5) by simp
      with le show ?thesis by (simp add: Call_loop_response)
    next
      case (Cons e pre')
      then have "reader_error env e" using step.prems(3) by simp
      then obtain err where "await c env 0 (e # pre' @ Arrives buffer # rest) =
          (Inl err, 0, pre' @ Arrives buffer # rest)"
        using await_reader_error by blast
      then have a': "attempt c env reqData retry readers evs =
          (Inl err, 0, pre' @ Arrives buffer # rest)"
        using a step.prems(2) Cons by simp
      have "length pre' <
          length (filter (\<lambda>i. WriteToUDP env i reqData = None) [retry + 1..MaxRetries c])"
        using step.prems(4) None Cons unfolding upto by simp
      then have "fst (Call_loop c env reqData (retry + 1) (Some err) 0
          (pre' @ Arrives buffer # rest)) = Inr resp"
        using step.prems(3,5) Cons by (intro step.IH [OF le a']) simp_all
      with le a' show ?thesis by (simp add: Call_loop_error)
    qed
  qed
qed

lemma Call_loop_failure:
  "fst (Call_loop c env reqData retry lastErr readers evs) = Inl msg \<Longrightarrow>
   (\<exists>e. msg = ''max retries exceeded: '' @ e) \<and>
   snd (Call_loop c env reqData retry lastErr readers evs) =
     replicate (nat (MaxRetries c + 1 - retry)) reqData"
proof (induction c env reqData retry lastErr readers evs rule: Call_loop_induct)
  case (step c env reqData retry lastErr readers evs)
  show ?case
  proof (cases "retry \<le> MaxRetries c")
    case False
    with step.prems show ?thesis by (auto simp: Call_loop_done)
  next
    case True
    obtain r readers' evs' where a: "attempt c env reqData retry readers evs = (r, readers', evs')"
      by (cases "attempt c env reqData retry readers evs")
    show ?thesis
    proof (cases r)
      case (Inr resp)
      with True a step.prems show ?thesis by (simp add: Call_loop_response)
    next
      case (Inl err)
      with True a have unfold: "Call_loop c env reqData retry lastErr readers evs =
          (fst (Call_loop c env reqData (retry + 1) (Some err) readers' evs'),
           reqData # snd (Call_loop c env reqData (retry + 1) (Some err) readers' evs'))"
        by (simp add: Call_loop_error)
      with step.prems
      have "fst (Call_loop c env reqData (retry + 1) (Some err) readers' evs') = Inl msg"
        by simp
      with step.IH [OF True] a Inl
      have ih: "(\<exists>e. msg = ''max retries exceeded: '' @ e) \<and>
          snd (Call_loop c env reqData (retry + 1) (Some err) readers' evs') =
            replicate (nat (MaxRetries c + 1 - (retry + 1))) reqData"
        by simp
      have "Suc (nat (MaxRetries c + 1 - (retry + 1))) = nat (MaxRetries c + 1 - retry)"
        using True by linarith
      then have "reqData # replicate (nat (MaxRetries c + 1 - (retry + 1))) reqData =
          replicate (nat (MaxRetries c + 1 - retry)) reqData"
        by (metis replicate_Suc)
      with ih unfold show ?thesis by simp
    qed
  qed
qed

lemma await_without_response:
  "\<forall>buffer. Arrives buffer \<in> set evs \<longrightarrow> isl (unmarshal env buffer) \<Longrightarrow>
   isl (fst (await c env readers evs)) \<and>
   set (snd (snd (await c env readers evs))) \<subseteq> set evs"
proof (induction c env readers evs rule: await.induct)
  case (1 c env readers)
  show ?case by simp
next
  case (2 c env readers evs)
  show ?case by auto
next
  case (3 c env readers buffer evs)
  show ?case
  proof (cases "0 < readers")
    case True
    with 3 show ?thesis by auto
  next
    case False
    moreover from 3(2) have "isl (unmarshal env buffer)" by simp
    ultimately show ?thesis by (auto split: sum.splits)
  qed
next
  case (4 c env readers err evs)
  then show ?case by auto
qed

lemma Call_loop_without_response:
  "\<forall>buffer. Arrives buffer \<in> set evs \<longrightarrow> isl (unmarshal env buffer) \<Longrightarrow>
   isl (fst (Call_loop c env reqData retry lastErr readers evs))"
proof (induction c env reqData retry lastErr readers evs rule: Call_loop_induct)
  case (step c env reqData retry lastErr readers evs)
  show ?case
  proof (cases "retry \<le> MaxRetries c")
    case False
    then show ?thesis by (simp add: Call_loop_done)
  next
    case True
    obtain r readers' evs' where a: "attempt c env reqData retry readers evs = (r, readers', evs')"
      by (cases "attempt c env reqData retry readers evs")
    have "isl r \<and> set evs' \<subseteq> set evs"
    proof (cases "WriteToUDP env retry reqData")
      case (Some err)
      with a show ?thesis by (auto simp: attempt_def)
    next
      case None
      with a have "await c env readers evs = (r, readers', evs')" by (simp add: attempt_def)
      with await_without_response [OF step.prems, of c readers] show ?thesis by simp
    qed
    then obtain err where r: "r = Inl err" and sub: "set evs' \<subseteq> set evs"
      by (cases r) auto
    from sub step.prems
    have "\<forall>buffer. Arrives buffer \<in> set evs' \<longrightarrow> isl (unmarshal env buffer)" by blast
    with step.IH [OF True] a r
    have "isl (fst (Call_loop c env reqData (retry + 1) (Some err) readers' evs'))" by simp
    with True a r show ?thesis by (simp add: Call_loop_error)
  qed
qed

lemma Call_without_response:
  assumes "marshal env
             \<lparr>RequestID = generateRequestID (now_UnixNano env) (rand_Intn env),
              Method = method, Params = params, Timestamp = now_Unix env\<rparr> = Inr reqData"
    and "\<forall>buffer. Arrives buffer \<in> set (socket env) \<longrightarrow> isl (unmarshal env buffer)"
  shows "\<exists>e. Call c env method params =
           (Inl (''max retries exceeded: '' @ e), replicate (nat (MaxRetries c + 1)) reqData)"
proof -
  let ?r = "Call_loop c env reqData 0 None (blocked_readers env) (socket env)"
  have "isl (fst ?r)" using assms(2) by (rule Call_loop_without_response)
  then obtain msg where msg: "fst ?r = Inl msg" by (cases "fst ?r") auto
  from Call_loop_failure [OF msg] obtain e where "msg = ''max retries exceeded: '' @ e"
    and "snd ?r = replicate (nat (MaxRetries c + 1)) reqData" by auto
  with msg have "?r = (Inl (''max retries exceeded: '' @ e),
      replicate (nat (MaxRetries c + 1)) reqData)"
    by (cases ?r) simp
  with assms(1) show ?thesis by (simp add: Call_def Let_def)
qed

text \<open>
  Claim C2 (correlation matching on the client) says that \<open>Call\<close> discards a response
  whose \<open>request_id\<close> differs from the one it generated. \<open>Call\<close> never looks at the
  identifier of a response. What holds: as long as no reader of an earlier attempt or
  call is blocked on the socket, \<open>Call\<close> returns the first datagram that decodes to a
  response, whatever identifier \<open>request_id\<close> that response carries. Precisely: the
  request is encoded; no earlier call has left a reader on the socket; the events before
  the datagram each give the attempt that is waiting an error of its reader (a failed
  read, or a datagram that does not decode), and none is a timeout; and more attempts
  write the request than there are such events, so that an attempt is waiting when the
  datagram arrives. The witness is \<open>flaky_env\<close>, where the fourth attempt returns the
  response to an earlier call.
\<close>

theorem Call_returns_first_decoded_response:
  assumes "marshal env
             \<lparr>RequestID = generateRequestID (now_UnixNano env) (rand_Intn env),
              Method = method, Params = params, Timestamp = now_Unix env\<rparr> = Inr reqData"
    and "blocked_readers env = 0"
    and "socket env = pre @ Arrives buffer # rest"
    and "\<forall>e \<in> set pre. reader_error env e"
    and "length pre <
           length (filter (\<lambda>retry. WriteToUDP env retry reqData = None) [0..MaxRetries c])"
    and "unmarshal env buffer = Inr (resp\<lparr>RespRequestID := request_id\<rparr>)"
  shows "fst (Call c env method params) = Inr (resp\<lparr>RespRequestID := request_id\<rparr>)"
proof -
  have "fst (Call_loop c env reqData 0 None (blocked_readers env) (socket env)) =
      Inr (resp\<lparr>RespRequestID := request_id\<rparr>)"
    using assms(2-6) by (rule Call_loop_first_decoded)
  with assms(1) show ?thesis by (simp add: Call_def Let_def)
qed

theorem Call_returns_first_decoded_response_witness:
  "fst (Call example_client flaky_env ''add'' Map.empty) = Inr stale_response \<and>
   RespRequestID stale_response = ''1699999999000000000-7'' \<and>
   generateRequestID (now_UnixNano flaky_env) (rand_Intn flaky_env) = ''1700000000000000000-42''"
  using Call_returns_first_decoded_response
    [of flaky_env "''add''" Map.empty "''1700000000000000000-42 add''"
      "[ReadFails ''connection refused'', Arrives ''garbage'']" "''late reply''" "[]"
      example_client "''1699999999000000000-7''" stale_response]
  by (simp add: flaky_env_def example_client_def stale_response_def reader_error_def
      example_request_id upto_rec1)

text \<open>
  Claim C2 as stated fails: the network delivers a response to an earlier call, with
  another identifier than the one generated for this call, and \<open>Call\<close> returns it.
\<close>

theorem Call_accepts_mismatched_response:
  "fst (Call example_client stale_env ''add'' Map.empty) = Inr stale_response \<and>
   RespRequestID stale_response \<noteq>
     generateRequestID (now_UnixNano stale_env) (rand_Intn stale_env)"
proof -
  have "Call_loop example_client stale_env ''1700000000000000000-42 add'' 0 None 0
          [Arrives ''late reply''] =
          (Inr stale_response, [''1700000000000000000-42 add''])"
    by (subst Call_loop.simps) (simp add: attempt_def stale_env_def example_client_def)
  then have "fst (Call example_client stale_env ''add'' Map.empty) = Inr stale_response"
    by (simp add: Call_def Let_def stale_env_def example_request_id)
  moreover have "RespRequestID stale_response \<noteq>
     generateRequestID (now_UnixNano stale_env) (rand_Intn stale_env)"
    by (simp add: stale_env_def stale_response_def example_request_id)
  ultimately show ?thesis by simp
qed

text \<open>
  Claim C7 (retry exhaustion) says that \<open>Call\<close> returns the error of exhausted
  retries, carrying the last error, when every attempt ends in a timeout or a failure,
  and never while a definitive response was received. An error that \<open>Call\<close> returns
  after encoding the request is always that error, returned after all the writes
  (\<open>Call_loop_failure\<close>), and it is returned whenever no datagram that decodes
  reaches the socket (\<open>Call_without_response\<close>). But it is also returned although a
  response was received. In
  \<open>delayed_env\<close> the first attempt times out, and the response to the call, which
  decodes and carries the identifier of the call, arrives while the second attempt is
  waiting. The reader that the first attempt left on the socket takes the datagram;
  the channel it sends the response on has no receiver any more. The second attempt
  and the two after it time out, and \<open>Call\<close> returns the error after four writes.
  The same happens when the first request is lost and the server answers each of the
  three retries: every response is taken by the reader of the attempt before, and each
  attempt times out. With no timeout before it, the same datagram is returned as the
  result of the call; and when the four attempts end in errors of their readers, the
  error returned carries the last of them.
\<close>

theorem response_lost_after_timeout:
  "Call example_client delayed_env ''add'' (Params example_request) =
     (Inl ''max retries exceeded: timeout after 2s'',
      replicate 4 ''1700000000000000000-42 add'') \<and>
   socket delayed_env = [TimerFires, Arrives ''reply''] \<and>
   unmarshal delayed_env ''reply'' = Inr matching_response \<and>
   RespRequestID matching_response =
     generateRequestID (now_UnixNano delayed_env) (rand_Intn delayed_env) \<and>
   Call example_client
     (delayed_env\<lparr>socket := [TimerFires, Arrives ''reply'', TimerFires, Arrives ''reply'',
                              TimerFires, Arrives ''reply'']\<rparr>)
     ''add'' (Params example_request) =
     (Inl ''max retries exceeded: timeout after 2s'',
      replicate 4 ''1700000000000000000-42 add'') \<and>
   Call example_client (delayed_env\<lparr>socket := [Arrives ''reply'']\<rparr>) ''add''
     (Params example_request) =
     (Inr matching_response, [''1700000000000000000-42 add'']) \<and>
   Call example_client
     (delayed_env\<lparr>socket := [Arrives ''garbage'', Arrives ''garbage'', Arrives ''garbage'',
                              ReadFails ''connection refused'']\<rparr>)
     ''add'' (Params example_request) =
     (Inl ''max retries exceeded: connection refused'',
      replicate 4 ''1700000000000000000-42 add'') \<and>
   Call example_client
     (delayed_env\<lparr>socket := [ReadFails ''connection refused'', ReadFails ''connection refused'',
                              ReadFails ''connection refused'', Arrives ''garbage'']\<rparr>)
     ''add'' (Params example_request) =
     (Inl ''max retries exceeded: invalid character'',
      replicate 4 ''1700000000000000000-42 add'')"
  by (simp add: Call_def Let_def delayed_env_def example_client_def example_request_id
      matching_response_def Call_loop.simps attempt_def numeral_eq_Suc)

text \<open>
  Claim C8 (encode-once retries). \<open>Call\<close> encodes one request, whose identifier is the
  one identifier it generates, before the loop; every write of every attempt hands
  these same bytes to \<^verbatim>\<open>WriteToUDP\<close>, there are at most \<open>MaxRetries + 1\<close> writes,
  and nothing is written when the encoding fails.
\<close>

theorem Call_encodes_once:
  "snd (Call c env method params) =
     (case marshal env
             \<lparr>RequestID = generateRequestID (now_UnixNano env) (rand_Intn env),
              Method = method, Params = params, Timestamp = now_Unix env\<rparr> of
        Inl err \<Rightarrow> []
      | Inr reqData \<Rightarrow> replicate (length (snd (Call c env method params))) reqData) \<and>
   length (snd (Call c env method params)) \<le> nat (MaxRetries c + 1)"
proof (cases "marshal env
             \<lparr>RequestID = generateRequestID (now_UnixNano env) (rand_Intn env),
              Method = method, Params = params, Timestamp = now_Unix env\<rparr>")
  case (Inl err)
  then show ?thesis by (simp add: Call_def Let_def)
next
  case (Inr reqData)
  then have "Call c env method params =
      Call_loop c env reqData 0 None (blocked_readers env) (socket env)"
    by (simp add: Call_def Let_def)
  with Inr Call_loop_writes [of c env reqData 0 None "blocked_readers env" "socket env"]
  show ?thesis by simp
qed

theorem Call_encodes_once_witness:
  "snd (Call example_client silent_env ''add'' Map.empty) =
     replicate 4 ''1700000000000000000-42 add''"
proof -
  have "Call example_client silent_env ''add'' Map.empty =
     (Inl ''max retries exceeded: timeout after 2s'',
      replicate 4 ''1700000000000000000-42 add'')"
    by (simp add: Call_def Let_def silent_env_def example_client_def example_request_id
        Call_loop.simps attempt_def numeral_eq_Suc)
  then show ?thesis
    using Call_encodes_once [of example_client silent_env "''add''" Map.empty]
    by (simp only: snd_conv)
qed

text \<open>
  Claim C9 (uniqueness of the correlation identifier) says that any two invocations of
  \<open>generateRequestID\<close> yield different identifiers. The identifier is a function of
  the clock reading and the number drawn, so two invocations that read the same
  nanosecond and draw the same number yield the same identifier. What holds: the
  identifier determines both the clock reading and the number drawn (which
  \<^verbatim>\<open>rand.Intn\<close> never makes negative), so invocations that differ in either get
  different identifiers.
\<close>

theorem generateRequestID_inj:
  assumes "0 \<le> r" and "0 \<le> r'"
  shows "generateRequestID t r = generateRequestID t' r' \<longleftrightarrow> t = t' \<and> r = r'"
proof
  assume eq: "generateRequestID t r = generateRequestID t' r'"
  have "CHR ''-'' \<notin> set (format_d r)" "CHR ''-'' \<notin> set (format_d r')"
    using assms format_nat_no_dash by (simp_all add: format_d_def)
  with eq have "format_d t = format_d t' \<and> format_d r = format_d r'"
    unfolding generateRequestID_def by (intro split_at_last_dash) simp_all
  then show "t = t' \<and> r = r'" using format_d_inj by blast
next
  assume "t = t' \<and> r = r'"
  then show "generateRequestID t r = generateRequestID t' r'" by simp
qed

theorem generateRequestID_inj_witness:
  "generateRequestID 1700000000000000000 42 \<noteq> generateRequestID 1700000000000000000 43 \<and>
   generateRequestID 1700000000000000000 42 \<noteq> generateRequestID 1700000000000000001 42"
  using generateRequestID_inj [of 42 43 1700000000000000000 1700000000000000000]
    generateRequestID_inj [of 42 42 1700000000000000000 1700000000000000001]
  by simp

text \<open>
  Claim C9 as stated fails: two invocations with the same clock reading and the same
  number drawn.
\<close>

theorem generateRequestID_collision:
  "\<not> distinct [generateRequestID 1700000000000000000 42,
                generateRequestID 1700000000000000000 42]"
  by simp

section \<open>String reversal\<close>

lemma decoderunes_Nil: "decoderunes [] = []"
  by (subst decoderunes.simps) simp

lemma decoderunes_ascii: "b < 0x80 \<Longrightarrow> decoderunes (b # s) = b # decoderunes s"
  by (subst decoderunes.simps) simp

lemma decoderunes_two:
  "0xC0 \<le> b0 \<Longrightarrow> b0 < 0xE0 \<Longrightarrow> contb b1 \<Longrightarrow> 0x7F < rune2 b0 b1 \<Longrightarrow>
   decoderunes (b0 # b1 # s) = rune2 b0 b1 # decoderunes s"
  by (subst decoderunes.simps) (simp add: decoderune_def)

lemma decoderunes_three:
  "0xE0 \<le> b0 \<Longrightarrow> b0 < 0xF0 \<Longrightarrow> contb b1 \<Longrightarrow> contb b2 \<Longrightarrow> 0x7FF < rune3 b0 b1 b2 \<Longrightarrow>
   \<not> (0xD800 \<le> rune3 b0 b1 b2 \<and> rune3 b0 b1 b2 \<le> 0xDFFF) \<Longrightarrow>
   decoderunes (b0 # b1 # b2 # s) = rune3 b0 b1 b2 # decoderunes s"
  by (subst decoderunes.simps) (simp add: decoderune_def)

lemma decoderunes_four:
  "0xF0 \<le> b0 \<Longrightarrow> b0 < 0xF8 \<Longrightarrow> contb b1 \<Longrightarrow> contb b2 \<Longrightarrow> contb b3 \<Longrightarrow>
   0xFFFF < rune4 b0 b1 b2 b3 \<Longrightarrow> rune4 b0 b1 b2 b3 \<le> 0x10FFFF \<Longrightarrow>
   decoderunes (b0 # b1 # b2 # b3 # s) = rune4 b0 b1 b2 b3 # decoderunes s"
  by (subst decoderunes.simps) (simp add: decoderune_def)

lemma decoderunes_invalid:
  "\<not> b0 < 0x80 \<Longrightarrow> decoderune (b0 # s) = (0xFFFD, 1) \<Longrightarrow>
   decoderunes (b0 # s) = 0xFFFD # decoderunes s"
  by (subst decoderunes.simps) simp

lemma decode_replacement: "decoderunes (0xEF # 0xBF # 0xBD # s) = 0xFFFD # decoderunes s"
proof -
  have "rune3 0xEF 0xBF 0xBD = 0xFFFD" by (simp add: rune3_def)
  then show ?thesis
    using decoderunes_three [of "0xEF" "0xBF" "0xBD" s] by (simp add: contb_def)
qed

lemma decode_encode_one:
  "r \<le> 0x7F \<Longrightarrow> decoderunes (encoderune r @ s) = r # decoderunes s"
  by (simp add: encoderune_def decoderunes_ascii)

lemma lead2: "q < 32 \<Longrightarrow> (192 + q) mod 32 = (q::nat)"
proof -
  assume q: "q < 32"
  have "192 + q = q + 32 * 6" by simp
  then have "(192 + q) mod 32 = (q + 32 * 6) mod 32" by (rule arg_cong)
  also have "\<dots> = q mod 32" by (rule mod_mult_self2)
  also have "\<dots> = q" using q by simp
  finally show ?thesis .
qed

lemma lead3: "q < 16 \<Longrightarrow> (224 + q) mod 16 = (q::nat)"
proof -
  assume q: "q < 16"
  have "224 + q = q + 16 * 14" by simp
  then have "(224 + q) mod 16 = (q + 16 * 14) mod 16" by (rule arg_cong)
  also have "\<dots> = q mod 16" by (rule mod_mult_self2)
  also have "\<dots> = q" using q by simp
  finally show ?thesis .
qed

lemma lead4: "q < 8 \<Longrightarrow> (240 + q) mod 8 = (q::nat)"
proof -
  assume q: "q < 8"
  have "240 + q = q + 8 * 30" by simp
  then have "(240 + q) mod 8 = (q + 8 * 30) mod 8" by (rule arg_cong)
  also have "\<dots> = q mod 8" by (rule mod_mult_self2)
  also have "\<dots> = q" using q by simp
  finally show ?thesis .
qed

lemma cont_mod: "(128 + m mod 64) mod 64 = (m::nat) mod 64"
proof -
  have "128 + m mod 64 = m mod 64 + 64 * 2" by simp
  then have "(128 + m mod 64) mod 64 = (m mod 64 + 64 * 2) mod 64" by (rule arg_cong)
  also have "\<dots> = m mod 64 mod 64" by (rule mod_mult_self2)
  finally show ?thesis by simp
qed

lemma contb_cont: "contb (128 + m mod 64)"
proof -
  have "m mod 64 < 64" by simp
  then show ?thesis unfolding contb_def by linarith
qed

lemma div_4096: "(r::nat) div 4096 = r div 64 div 64"
  by (simp add: div_mult2_eq [symmetric])

lemma div_262144: "(r::nat) div 262144 = r div 64 div 64 div 64"
  by (simp add: div_mult2_eq [symmetric])

lemma digits3: "(r::nat) div 4096 * 4096 + r div 64 mod 64 * 64 + r mod 64 = r"
proof -
  define a where "a = r div 64"
  define y where "y = r mod 64"
  define b where "b = a div 64"
  define x where "x = a mod 64"
  have "r = a * 64 + y" unfolding a_def y_def by simp
  moreover have "a = b * 64 + x" unfolding b_def x_def by simp
  ultimately have "r = b * 4096 + x * 64 + y" by simp
  then show ?thesis unfolding div_4096 a_def y_def b_def x_def by simp
qed

lemma digits4:
  "(r::nat) div 262144 * 262144 + r div 4096 mod 64 * 4096 + r div 64 mod 64 * 64 + r mod 64 = r"
proof -
  define a where "a = r div 64"
  define y where "y = r mod 64"
  define b where "b = a div 64"
  define x where "x = a mod 64"
  define c where "c = b div 64"
  define w where "w = b mod 64"
  have "r = a * 64 + y" unfolding a_def y_def by simp
  moreover have "a = b * 64 + x" unfolding b_def x_def by simp
  moreover have "b = c * 64 + w" unfolding c_def w_def by simp
  ultimately have "r = c * 262144 + w * 4096 + x * 64 + y" by simp
  then show ?thesis
    unfolding div_4096 div_262144 a_def y_def b_def x_def c_def w_def by simp
qed

lemma rune2_encoded:
  assumes "r \<le> 0x7FF"
  shows "rune2 (192 + r div 64) (128 + r mod 64) = r"
proof -
  have "r div 64 < 32" using assms by simp
  then have "(192 + r div 64) mod 32 = r div 64" by (rule lead2)
  moreover have "(128 + r mod 64) mod 64 = r mod 64" by (rule cont_mod)
  ultimately have "rune2 (192 + r div 64) (128 + r mod 64) = r div 64 * 64 + r mod 64"
    unfolding rune2_def by (simp only:)
  then show ?thesis by simp
qed

lemma rune3_encoded:
  assumes "r \<le> 0xFFFF"
  shows "rune3 (224 + r div 4096) (128 + r div 64 mod 64) (128 + r mod 64) = r"
proof -
  have "r div 4096 < 16" using assms by simp
  then have "(224 + r div 4096) mod 16 = r div 4096" by (rule lead3)
  moreover have "(128 + r div 64 mod 64) mod 64 = r div 64 mod 64" by (rule cont_mod)
  moreover have "(128 + r mod 64) mod 64 = r mod 64" by (rule cont_mod)
  ultimately have "rune3 (224 + r div 4096) (128 + r div 64 mod 64) (128 + r mod 64) =
      r div 4096 * 4096 + r div 64 mod 64 * 64 + r mod 64"
    unfolding rune3_def by (simp only:)
  then show ?thesis by (simp only: digits3)
qed

lemma rune4_encoded:
  assumes "r \<le> 0x10FFFF"
  shows "rune4 (240 + r div 262144) (128 + r div 4096 mod 64) (128 + r div 64 mod 64)
           (128 + r mod 64) = r"
proof -
  have "r div 262144 < 8" using assms by simp
  then have "(240 + r div 262144) mod 8 = r div 262144" by (rule lead4)
  moreover have "(128 + r div 4096 mod 64) mod 64 = r div 4096 mod 64" by (rule cont_mod)
  moreover have "(128 + r div 64 mod 64) mod 64 = r div 64 mod 64" by (rule cont_mod)
  moreover have "(128 + r mod 64) mod 64 = r mod 64" by (rule cont_mod)
  ultimately have "rune4 (240 + r div 262144) (128 + r div 4096 mod 64)
        (128 + r div 64 mod 64) (128 + r mod 64) =
      r div 262144 * 262144 + r div 4096 mod 64 * 4096 + r div 64 mod 64 * 64 + r mod 64"
    unfolding rune4_def by (simp only:)
  then show ?thesis by (simp only: digits4)
qed

lemma decode_encode_two:
  assumes "0x7F < r" and "r \<le> 0x7FF"
  shows "decoderunes (encoderune r @ s) = r # decoderunes s"
proof -
  have q: "r div 64 < 32" using assms by simp
  have enc: "encoderune r = [192 + r div 64, 128 + r mod 64]"
    using assms by (simp add: encoderune_def)
  have e: "rune2 (192 + r div 64) (128 + r mod 64) = r"
    using assms(2) by (rule rune2_encoded)
  have "decoderunes ((192 + r div 64) # (128 + r mod 64) # s) =
      rune2 (192 + r div 64) (128 + r mod 64) # decoderunes s"
  proof (rule decoderunes_two)
    show "0xC0 \<le> 192 + r div 64" by simp
    show "192 + r div 64 < 0xE0" using q by simp
    show "contb (128 + r mod 64)" by (rule contb_cont)
    show "0x7F < rune2 (192 + r div 64) (128 + r mod 64)"
      unfolding e using assms(1) .
  qed
  then show ?thesis by (simp only: enc e append_Cons append_Nil)
qed

lemma decode_encode_three:
  assumes "0x7FF < r" and "r \<le> 0xFFFF" and "\<not> (0xD800 \<le> r \<and> r \<le> 0xDFFF)"
  shows "decoderunes (encoderune r @ s) = r # decoderunes s"
proof -
  have q: "r div 4096 < 16" using assms by simp
  have c: "\<not> r \<le> 0x7F" "\<not> r \<le> 0x7FF" "r \<le> 0xFFFF"
    "\<not> (0x10FFFF < r \<or> (0xD800 \<le> r \<and> r \<le> 0xDFFF))"
    using assms by auto
  have enc: "encoderune r = [224 + r div 4096, 128 + r div 64 mod 64, 128 + r mod 64]"
    unfolding encoderune_def by (simp only: c if_False if_True)
  have e: "rune3 (224 + r div 4096) (128 + r div 64 mod 64) (128 + r mod 64) = r"
    using assms(2) by (rule rune3_encoded)
  have "decoderunes ((224 + r div 4096) # (128 + r div 64 mod 64) # (128 + r mod 64) # s) =
      rune3 (224 + r div 4096) (128 + r div 64 mod 64) (128 + r mod 64) # decoderunes s"
  proof (rule decoderunes_three)
    show "0xE0 \<le> 224 + r div 4096" by simp
    show "224 + r div 4096 < 0xF0" using q by simp
    show "contb (128 + r div 64 mod 64)" by (rule contb_cont)
    show "contb (128 + r mod 64)" by (rule contb_cont)
    show "0x7FF < rune3 (224 + r div 4096) (128 + r div 64 mod 64) (128 + r mod 64)"
      unfolding e using assms(1) .
    show "\<not> (0xD800 \<le> rune3 (224 + r div 4096) (128 + r div 64 mod 64) (128 + r mod 64) \<and>
        rune3 (224 + r div 4096) (128 + r div 64 mod 64) (128 + r mod 64) \<le> 0xDFFF)"
      unfolding e using assms(3) .
  qed
  then show ?thesis by (simp only: enc e append_Cons append_Nil)
qed

lemma decode_encode_four:
  assumes "0xFFFF < r" and "r \<le> 0x10FFFF"
  shows "decoderunes (encoderune r @ s) = r # decoderunes s"
proof -
  have q: "r div 262144 < 8" using assms by simp
  have c: "\<not> r \<le> 0x7F" "\<not> r \<le> 0x7FF" "\<not> r \<le> 0xFFFF"
    "\<not> (0x10FFFF < r \<or> (0xD800 \<le> r \<and> r \<le> 0xDFFF))"
    using assms by auto
  have enc: "encoderune r =
      [240 + r div 262144, 128 + r div 4096 mod 64, 128 + r div 64 mod 64, 128 + r mod 64]"
    unfolding encoderune_def by (simp only: c if_False if_True)
  have e: "rune4 (240 + r div 262144) (128 + r div 4096 mod 64) (128 + r div 64 mod 64)
      (128 + r mod 64) = r"
    using assms(2) by (rule rune4_encoded)
  have "decoderunes ((240 + r div 262144) # (128 + r div 4096 mod 64) #
        (128 + r div 64 mod 64) # (128 + r mod 64) # s) =
      rune4 (240 + r div 262144) (128 + r div 4096 mod 64) (128 + r div 64 mod 64)
        (128 + r mod 64) # decoderunes s"
  proof (rule decoderunes_four)
    show "0xF0 \<le> 240 + r div 262144" by simp
    show "240 + r div 262144 < 0xF8" using q by simp
    show "contb (128 + r div 4096 mod 64)" by (rule contb_cont)
    show "contb (128 + r div 64 mod 64)" by (rule contb_cont)
    show "contb (128 + r mod 64)" by (rule contb_cont)
    show "0xFFFF < rune4 (240 + r div 262144) (128 + r div 4096 mod 64)
        (128 + r div 64 mod 64) (128 + r mod 64)"
      unfolding e using assms(1) .
    show "rune4 (240 + r div 262144) (128 + r div 4096 mod 64)
        (128 + r div 64 mod 64) (128 + r mod 64) \<le> 0x10FFFF"
      unfolding e using assms(2) .
  qed
  then show ?thesis by (simp only: enc e append_Cons append_Nil)
qed

lemma decode_encode:
  "decoderunes (encoderune r @ s) = (if is_scalar r then r else 0xFFFD) # decoderunes s"
proof (cases "is_scalar r")
  case False
  then have "encoderune r = [0xEF, 0xBF, 0xBD]"
    by (auto simp: encoderune_def is_scalar_def)
  with False show ?thesis by (simp add: decode_replacement)
next
  case True
  consider "r \<le> 0x7F" | "0x7F < r" "r \<le> 0x7FF" | "0x7FF < r" "r \<le> 0xFFFF" | "0xFFFF < r"
    by linarith
  then show ?thesis
  proof cases
    case 1 then show ?thesis using True by (simp add: decode_encode_one)
  next
    case 2 then show ?thesis using True by (simp add: decode_encode_two)
  next
    case 3 then show ?thesis using True by (simp add: decode_encode_three is_scalar_def)
  next
    case 4 then show ?thesis using True by (simp add: decode_encode_four is_scalar_def)
  qed
qed

lemma encoderune_bytes: "b \<in> set (encoderune r) \<Longrightarrow> b < 256"
proof -
  assume b: "b \<in> set (encoderune r)"
  have m: "r mod 64 < 64" "r div 64 mod 64 < 64" "r div 4096 mod 64 < 64" by simp_all
  consider "r \<le> 0x7F" | "0x7F < r" "r \<le> 0x7FF"
    | "0x7FF < r" "0x10FFFF < r \<or> (0xD800 \<le> r \<and> r \<le> 0xDFFF)"
    | "0x7FF < r" "r \<le> 0xFFFF" "\<not> (0x10FFFF < r \<or> (0xD800 \<le> r \<and> r \<le> 0xDFFF))"
    | "0xFFFF < r" "r \<le> 0x10FFFF"
    by linarith
  then show "b < 256"
  proof cases
    case 1 with b show ?thesis by (simp add: encoderune_def)
  next
    case 2
    then have "r div 64 < 32" by simp
    with 2 b m show ?thesis by (auto simp: encoderune_def)
  next
    case 3 with b show ?thesis by (auto simp: encoderune_def)
  next
    case 4
    then have "r div 4096 < 16" by simp
    with 4 b m show ?thesis by (auto simp: encoderune_def)
  next
    case 5
    then have "r div 262144 < 8" by simp
    with 5 b m show ?thesis by (auto simp: encoderune_def)
  qed
qed

lemma encoderune_sanitized:
  "encoderune (if is_scalar r then r else 0xFFFD) = encoderune r"
  by (simp add: encoderune_def is_scalar_def)

lemma decode_encode_all:
  "decoderunes (concat (map encoderune runes)) =
     map (\<lambda>r. if is_scalar r then r else 0xFFFD) runes"
  by (induction runes) (simp_all add: decoderunes_Nil decode_encode)

lemma bytes_of_chars:
  fixes bs :: "nat list"
  shows "(\<And>b. b \<in> set bs \<Longrightarrow> b < 256) \<Longrightarrow> map of_char (map char_of bs) = bs"
proof (induction bs)
  case Nil
  show ?case by simp
next
  case (Cons a bs)
  have "a < 256" using Cons.prems [of a] by simp
  then have "of_char (char_of a) = a" by (simp add: of_char_of)
  moreover have "map of_char (map char_of bs) = bs"
    using Cons.IH Cons.prems by simp
  ultimately show ?case by simp
qed

lemma stringtoslicerune_slicerunetostring:
  "stringtoslicerune (slicerunetostring runes) =
     map (\<lambda>r. if is_scalar r then r else 0xFFFD) runes"
proof -
  have "map of_char (map char_of (concat (map encoderune runes))) = concat (map encoderune runes)"
    by (rule bytes_of_chars) (auto dest: encoderune_bytes)
  then show ?thesis
    unfolding stringtoslicerune_def slicerunetostring_def
    by (simp only: decode_encode_all)
qed

lemma slicerunetostring_sanitized:
  "slicerunetostring (map (\<lambda>r. if is_scalar r then r else 0xFFFD) runes) =
     slicerunetostring runes"
  unfolding slicerunetostring_def
  by (induction runes) (simp_all add: encoderune_sanitized del: map_map)

lemma reverse_loop_segment:
  "reverse_loop (int (length a)) (int (length a + length m) - 1) (a @ m @ b) =
     Some (a @ rev m @ b)"
proof (induction "length m" arbitrary: a m b rule: less_induct)
  case less
  show ?case
  proof (cases "length m \<le> 1")
    case True
    then have "rev m = m" by (cases m) simp_all
    with True show ?thesis by (subst reverse_loop.simps) simp
  next
    case False
    then obtain x m0 where m0: "m = x # m0" and "m0 \<noteq> []" by (cases m) auto
    then obtain m' y where m': "m0 = m' @ [y]" by (metis rev_exhaust)
    have m: "m = x # m' @ [y]" using m0 m' by simp
    have lt: "int (length a) < int (length a + length m) - 1" using m by simp
    have rng: "int (length a + length m) - 1 < int (length (a @ m @ b))" by simp
    have j: "nat (int (length a + length m) - 1) = length a + Suc (length m')"
      using m by simp
    have xi: "(a @ m @ b) ! length a = x" using m by simp
    have yj: "(a @ m @ b) ! (length a + Suc (length m')) = y"
      using m by (simp add: nth_append)
    have upd: "(a @ m @ b)[length a := y, length a + Suc (length m') := x] =
        (a @ [y]) @ m' @ ([x] @ b)"
      using m by (simp add: list_update_append)
    have step: "reverse_loop (int (length a)) (int (length a + length m) - 1) (a @ m @ b) =
        reverse_loop (int (length a) + 1) (int (length a + length m) - 1 - 1)
          ((a @ m @ b)[length a := y, length a + Suc (length m') := x])"
      using lt rng xi yj j by (subst reverse_loop.simps) simp
    have idx: "int (length a) + 1 = int (length (a @ [y]))"
      "int (length a + length m) - 1 - 1 = int (length (a @ [y]) + length m') - 1"
      using m by simp_all
    have "reverse_loop (int (length (a @ [y]))) (int (length (a @ [y]) + length m') - 1)
        ((a @ [y]) @ m' @ ([x] @ b)) = Some ((a @ [y]) @ rev m' @ ([x] @ b))"
      using m by (intro less) simp
    then show ?thesis unfolding step upd idx using m by simp
  qed
qed

lemma reverse_loop_rev:
  "reverse_loop 0 (int (length runes) - 1) runes = Some (rev runes)"
  using reverse_loop_segment [of "[]" runes "[]"] by simp

lemma reverseString_string:
  "string_of (params ''s'') = Some str \<Longrightarrow>
   reverseString params = Inr (VString (slicerunetostring (rev (stringtoslicerune str))))"
  by (simp add: reverseString_def Let_def reverse_loop_rev)

lemma reverseString_twice:
  assumes "string_of (params ''s'') = Some str"
  shows "reverseString params =
           Inr (VString (slicerunetostring (rev (stringtoslicerune str))))"
    and "reverseString
           (params(''s'' \<mapsto> VString (slicerunetostring (rev (stringtoslicerune str))))) =
         Inr (VString (slicerunetostring (stringtoslicerune str)))"
proof -
  show "reverseString params =
      Inr (VString (slicerunetostring (rev (stringtoslicerune str))))"
    using assms by (rule reverseString_string)
  have "string_of ((params(''s'' \<mapsto> VString (slicerunetostring (rev (stringtoslicerune str)))))
      ''s'') = Some (slicerunetostring (rev (stringtoslicerune str)))"
    by (simp add: string_of_def)
  then have "reverseString
      (params(''s'' \<mapsto> VString (slicerunetostring (rev (stringtoslicerune str))))) =
    Inr (VString (slicerunetostring (rev (stringtoslicerune
      (slicerunetostring (rev (stringtoslicerune str)))))))"
    by (rule reverseString_string)
  also have "rev (stringtoslicerune (slicerunetostring (rev (stringtoslicerune str)))) =
      map (\<lambda>r. if is_scalar r then r else 0xFFFD) (stringtoslicerune str)"
    by (simp only: stringtoslicerune_slicerunetostring rev_map rev_rev_ident)
  finally show "reverseString
      (params(''s'' \<mapsto> VString (slicerunetostring (rev (stringtoslicerune str))))) =
    Inr (VString (slicerunetostring (stringtoslicerune str)))"
    by (simp only: slicerunetostring_sanitized)
qed

text \<open>
  Claim C10 (\<open>reverse_string\<close> is an involution) is stated for every string. A Go
  string may hold bytes that are no valid UTF-8; \<^verbatim>\<open>[]rune(str)\<close> reads each such
  byte as U+FFFD, so the original bytes are lost. What holds: for the encoding of any
  sequence of Unicode scalar values (every valid UTF-8 string, in particular every string
  that \<^verbatim>\<open>json.Unmarshal\<close> delivers), the handler returns the encoding of the
  reversed sequence, and applied to that it returns the original string; and for every
  string the output has as many runes as the input.
\<close>

theorem reverse_string_involution:
  "((\<forall>r \<in> set runes. is_scalar r) \<and> params ''s'' = Some (VString (slicerunetostring runes)) \<longrightarrow>
      reverseString params = Inr (VString (slicerunetostring (rev runes))) \<and>
      reverseString (params(''s'' \<mapsto> VString (slicerunetostring (rev runes)))) =
        Inr (VString (slicerunetostring runes))) \<and>
   (params ''s'' = Some (VString str) \<longrightarrow>
      (\<exists>out. reverseString params = Inr (VString out) \<and>
             length (stringtoslicerune out) = length (stringtoslicerune str)))"
proof (intro conjI impI)
  assume a: "(\<forall>r \<in> set runes. is_scalar r) \<and>
    params ''s'' = Some (VString (slicerunetostring runes))"
  then have s: "string_of (params ''s'') = Some (slicerunetostring runes)"
    by (simp add: string_of_def)
  have "map (\<lambda>r. if is_scalar r then r else 0xFFFD) runes = runes"
    using a by (simp add: map_idI)
  then have d: "stringtoslicerune (slicerunetostring runes) = runes"
    by (simp only: stringtoslicerune_slicerunetostring)
  show "reverseString params = Inr (VString (slicerunetostring (rev runes)))"
    using reverseString_twice(1) [of params "slicerunetostring runes"] s by (simp only: d)
  show "reverseString (params(''s'' \<mapsto> VString (slicerunetostring (rev runes)))) =
      Inr (VString (slicerunetostring runes))"
    using reverseString_twice(2) [of params "slicerunetostring runes"] s by (simp only: d)
next
  assume "params ''s'' = Some (VString str)"
  then have s: "string_of (params ''s'') = Some str"
    by (simp add: string_of_def)
  have "length (stringtoslicerune (slicerunetostring (rev (stringtoslicerune str)))) =
      length (stringtoslicerune str)"
    by (simp only: stringtoslicerune_slicerunetostring length_map length_rev)
  with reverseString_string [of params str] s
  show "\<exists>out. reverseString params = Inr (VString out) \<and>
      length (stringtoslicerune out) = length (stringtoslicerune str)"
    by blast
qed

lemma char_of_eq: "of_char c = (n::nat) \<Longrightarrow> char_of n = c"
  by auto

lemma hello_runes: "slicerunetostring [104, 101, 108, 108, 111] = ''hello''"
  unfolding slicerunetostring_def encoderune_def
  by simp (intro conjI char_of_eq; simp)

lemma olleh_runes: "slicerunetostring [111, 108, 108, 101, 104] = ''olleh''"
  unfolding slicerunetostring_def encoderune_def
  by simp (intro conjI char_of_eq; simp)

lemma replacement_bytes: "slicerunetostring [0xFFFD] = [CHR 0xEF, CHR 0xBF, CHR 0xBD]"
  unfolding slicerunetostring_def encoderune_def
  by simp (intro conjI char_of_eq; simp)

lemma invalid_byte_runes: "stringtoslicerune [CHR 0xFF] = [0xFFFD]"
proof -
  have "decoderune [255] = (0xFFFD, 1)" by (simp add: decoderune_def)
  then have "decoderunes [255] = [0xFFFD]"
    using decoderunes_invalid [of 255 "[]"] by (simp add: decoderunes_Nil)
  then show ?thesis by (simp add: stringtoslicerune_def)
qed

lemma replacement_runes: "stringtoslicerune [CHR 0xEF, CHR 0xBF, CHR 0xBD] = [0xFFFD]"
  using decode_replacement [of "[]"] by (simp add: stringtoslicerune_def decoderunes_Nil)

theorem reverse_string_involution_witness:
  "reverseString [''s'' \<mapsto> VString ''hello''] = Inr (VString ''olleh'') \<and>
   reverseString [''s'' \<mapsto> VString ''olleh''] = Inr (VString ''hello'') \<and>
   length (stringtoslicerune ''olleh'') = length (stringtoslicerune ''hello'') \<and>
   reverseString [''s'' \<mapsto> VString (slicerunetostring [0x68, 0xE9, 0x20AC, 0x1F600])] =
     Inr (VString (slicerunetostring [0x1F600, 0x20AC, 0xE9, 0x68])) \<and>
   reverseString [''s'' \<mapsto> VString (slicerunetostring [0x1F600, 0x20AC, 0xE9, 0x68])] =
     Inr (VString (slicerunetostring [0x68, 0xE9, 0x20AC, 0x1F600]))"
proof -
  have wide: "\<forall>r \<in> set [0x68, 0xE9, 0x20AC, 0x1F600]. is_scalar r"
    by (simp add: is_scalar_def)
  have multi: "reverseString [''s'' \<mapsto> VString (slicerunetostring [0x68, 0xE9, 0x20AC, 0x1F600])] =
      Inr (VString (slicerunetostring [0x1F600, 0x20AC, 0xE9, 0x68])) \<and>
    reverseString [''s'' \<mapsto> VString (slicerunetostring [0x1F600, 0x20AC, 0xE9, 0x68])] =
      Inr (VString (slicerunetostring [0x68, 0xE9, 0x20AC, 0x1F600]))"
    using reverse_string_involution [of "[0x68, 0xE9, 0x20AC, 0x1F600]"
        "[''s'' \<mapsto> VString (slicerunetostring [0x68, 0xE9, 0x20AC, 0x1F600])]" "[]"] wide
    by simp
  have sc: "\<forall>r \<in> set [104, 101, 108, 108, 111]. is_scalar r" by (simp add: is_scalar_def)
  have p: "[''s'' \<mapsto> VString ''hello''] ''s'' = Some (VString (slicerunetostring [104, 101, 108, 108, 111]))"
    by (simp add: hello_runes)
  have "stringtoslicerune ''hello'' = [104, 101, 108, 108, 111]"
    using stringtoslicerune_slicerunetostring [of "[104, 101, 108, 108, 111]"] sc
    by (simp add: hello_runes)
  moreover have "stringtoslicerune ''olleh'' = [111, 108, 108, 101, 104]"
    using stringtoslicerune_slicerunetostring [of "[111, 108, 108, 101, 104]"]
    by (simp add: olleh_runes is_scalar_def)
  ultimately have len: "length (stringtoslicerune ''olleh'') = length (stringtoslicerune ''hello'')"
    by simp
  from reverse_string_involution [of "[104, 101, 108, 108, 111]" "[''s'' \<mapsto> VString ''hello'']" "''hello''"]
    sc p len
  have "reverseString [''s'' \<mapsto> VString ''hello''] = Inr (VString ''olleh'') \<and>
    reverseString [''s'' \<mapsto> VString ''olleh''] = Inr (VString ''hello'')"
    by (simp add: hello_runes olleh_runes)
  with len multi show ?thesis by (simp only: simp_thms)
qed

text \<open>
  Claim C10 as stated fails on the one-byte string \<^verbatim>\<open>"\xff"\<close>: the handler returns
  the encoding of U+FFFD, and applied to that it returns it again, not the original.
\<close>

theorem reverse_string_invalid_utf8:
  "reverseString [''s'' \<mapsto> VString [CHR 0xFF]] = Inr (VString [CHR 0xEF, CHR 0xBF, CHR 0xBD]) \<and>
   reverseString [''s'' \<mapsto> VString [CHR 0xEF, CHR 0xBF, CHR 0xBD]] =
     Inr (VString [CHR 0xEF, CHR 0xBF, CHR 0xBD]) \<and>
   [CHR 0xEF, CHR 0xBF, CHR 0xBD] \<noteq> [CHR 0xFF]"
proof -
  have "reverseString [''s'' \<mapsto> VString [CHR 0xFF]] =
      Inr (VString (slicerunetostring (rev (stringtoslicerune [CHR 0xFF]))))"
    by (rule reverseString_string) (simp add: string_of_def)
  moreover have "reverseString [''s'' \<mapsto> VString [CHR 0xEF, CHR 0xBF, CHR 0xBD]] =
      Inr (VString (slicerunetostring (rev (stringtoslicerune [CHR 0xEF, CHR 0xBF, CHR 0xBD]))))"
    by (rule reverseString_string) (simp add: string_of_def)
  ultimately show ?thesis
    by (simp add: invalid_byte_runes replacement_runes replacement_bytes)
qed

end
